theory Spec2Isabelle
  imports Complex_Main
begin

section \<open>Data model of \<open>pdfMarkdownParser.ts\<close>\<close>

text \<open>
  Numbers of the source are modelled as reals (exact arithmetic). Strings are
  lists of 8-bit characters, one character per code unit.
\<close>

datatype ListType = Ordered | Unordered

text \<open>
  \<open>heading\<close> has the source type \<open>number | null\<close>. The table \<open>headingSizes\<close> of
  \<open>applyStyle\<close> has the six keys 1..6; \<open>null\<close> (and the falsy 0) take the
  \<open>else\<close> branch and are \<open>None\<close> here.
\<close>

datatype HeadingLevel = H1 | H2 | H3 | H4 | H5 | H6

record TextStyle =
  bold :: bool
  italic :: bool
  heading :: "HeadingLevel option"
  list' :: bool
  listType :: "ListType option"
  listLevel :: int
  indentation :: real

record TextSegment =
  text' :: string
  style :: TextStyle

datatype Align = Left | Center | Right | Justify

record PDFMarkdownOptions =
  maxWidth :: real
  align :: "Align option"
  fontSize :: real
  lineHeight :: real
  font :: string

subsection \<open>The drawing surface\<close>

text \<open>
  The font style strings \<open>'normal'\<close>, \<open>'bold'\<close>, \<open>'italic'\<close> and \<open>'bolditalic'\<close>.
\<close>

datatype FontStyle = Normal | Bold | Italic | BoldItalic

text \<open>
  One \<open>doc.text\<close> call, with the font state of the surface at the time of the call
  and the number of pages added so far.
\<close>

record DrawOp =
  op_text :: string
  op_x :: real
  op_y :: real
  op_fontName :: string
  op_fontStyle :: FontStyle
  op_fontSize :: real
  op_alignRight :: bool
  op_page :: nat

text \<open>
  The state of the \<open>jsPDF\<close> object as far as this module reads and writes it:
  the current font, the page size, the number of \<open>addPage\<close> calls and the
  \<open>text\<close> calls issued so far.
\<close>

record jsPDF =
  fontName :: string
  fontStyle :: FontStyle
  docFontSize :: real
  pageWidth :: real
  pageHeight :: real
  pages :: nat
  drawn :: "DrawOp list"

text \<open>
  The metrics provider behind \<open>doc.getTextWidth\<close>: the width of a string in a
  given font, style and size. It is a parameter of every function that measures.
\<close>

type_synonym Metrics = "string \<Rightarrow> FontStyle \<Rightarrow> real \<Rightarrow> string \<Rightarrow> real"

definition getTextWidth :: "Metrics \<Rightarrow> jsPDF \<Rightarrow> string \<Rightarrow> real" where
  "getTextWidth m doc s = m (fontName doc) (fontStyle doc) (docFontSize doc) s"

definition setFont :: "string \<Rightarrow> FontStyle \<Rightarrow> jsPDF \<Rightarrow> jsPDF" where
  "setFont f fs doc = doc\<lparr>fontName := f, fontStyle := fs\<rparr>"

definition setFontSize :: "real \<Rightarrow> jsPDF \<Rightarrow> jsPDF" where
  "setFontSize sz doc = doc\<lparr>docFontSize := sz\<rparr>"

definition addPage :: "jsPDF \<Rightarrow> jsPDF" where
  "addPage doc = doc\<lparr>pages := Suc (pages doc)\<rparr>"

definition drawText :: "string \<Rightarrow> real \<Rightarrow> real \<Rightarrow> bool \<Rightarrow> jsPDF \<Rightarrow> jsPDF" where
  "drawText s x y right doc =
     doc\<lparr>drawn := drawn doc @
       [\<lparr>op_text = s, op_x = x, op_y = y, op_fontName = fontName doc,
         op_fontStyle = fontStyle doc, op_fontSize = docFontSize doc,
         op_alignRight = right, op_page = pages doc\<rparr>]\<rparr>"

section \<open>\<open>applyStyle\<close>\<close>

definition styleName :: "TextStyle \<Rightarrow> FontStyle" where
  "styleName st =
     (if bold st \<and> italic st then BoldItalic
      else if bold st then Bold
      else if italic st then Italic
      else Normal)"

fun headingSizes :: "real \<Rightarrow> HeadingLevel \<Rightarrow> real" where
  "headingSizes baseFontSize H1 = baseFontSize * 2"
| "headingSizes baseFontSize H2 = baseFontSize * 1.5"
| "headingSizes baseFontSize H3 = baseFontSize * 1.17"
| "headingSizes baseFontSize H4 = baseFontSize * 1"
| "headingSizes baseFontSize H5 = baseFontSize * 0.83"
| "headingSizes baseFontSize H6 = baseFontSize * 0.67"

definition applyStyle :: "jsPDF \<Rightarrow> TextStyle \<Rightarrow> real \<Rightarrow> string \<Rightarrow> jsPDF" where
  "applyStyle doc st baseFontSize f =
     (let doc1 = setFont f (styleName st) doc
      in case heading st of
           Some h \<Rightarrow> setFontSize (headingSizes baseFontSize h) doc1
         | None \<Rightarrow> setFontSize baseFontSize doc1)"

section \<open>\<open>parseInlineMarkdown\<close>\<close>

definition initialStyle :: TextStyle where
  "initialStyle =
     \<lparr>bold = False, italic = False, heading = None, list' = False,
      listType = None, listLevel = 0, indentation = 0\<rparr>"

definition isMarker :: "char \<Rightarrow> bool" where
  "isMarker c = (c = CHR ''*'' \<or> c = CHR ''_'')"

definition flushText :: "TextSegment list \<Rightarrow> string \<Rightarrow> TextStyle \<Rightarrow> TextSegment list" where
  "flushText segments currentText currentStyle =
     (if currentText \<noteq> [] then segments @ [\<lparr>text' = currentText, style = currentStyle\<rparr>]
      else segments)"

text \<open>
  The \<open>while (i < text.length)\<close> loop, on the characters from index \<open>i\<close> on.
  \<open>text[i + 1]\<close> past the end is \<open>undefined\<close>, which is no marker.
\<close>

fun parseInlineLoop ::
  "string \<Rightarrow> TextSegment list \<Rightarrow> string \<Rightarrow> TextStyle \<Rightarrow> TextSegment list" where
  "parseInlineLoop [] segments currentText currentStyle =
     flushText segments currentText currentStyle"
| "parseInlineLoop [c] segments currentText currentStyle =
     (if isMarker c then
        parseInlineLoop [] (flushText segments currentText currentStyle) []
          (currentStyle\<lparr>italic := \<not> italic currentStyle\<rparr>)
      else parseInlineLoop [] segments (currentText @ [c]) currentStyle)"
| "parseInlineLoop (c # d # rest) segments currentText currentStyle =
     (if isMarker c then
        (if d = c then
           parseInlineLoop rest (flushText segments currentText currentStyle) []
             (currentStyle\<lparr>bold := \<not> bold currentStyle\<rparr>)
         else
           parseInlineLoop (d # rest) (flushText segments currentText currentStyle) []
             (currentStyle\<lparr>italic := \<not> italic currentStyle\<rparr>))
      else parseInlineLoop (d # rest) segments (currentText @ [c]) currentStyle)"

definition parseInlineMarkdown :: "string \<Rightarrow> TextSegment list" where
  "parseInlineMarkdown s = parseInlineLoop s [] [] initialStyle"

definition plainStyle :: TextStyle where
  "plainStyle = initialStyle"

definition boldStyle :: TextStyle where
  "boldStyle = initialStyle\<lparr>bold := True\<rparr>"

definition italicStyle :: TextStyle where
  "italicStyle = initialStyle\<lparr>italic := True\<rparr>"

section \<open>String helpers\<close>

text \<open>
  The characters matched by \<open>\s\<close> and removed by \<open>trim\<close>, among the 8-bit
  characters: tab, line feed, vertical tab, form feed, carriage return, space and
  the no-break space.
\<close>

definition isSpace :: "char \<Rightarrow> bool" where
  "isSpace c =
     (c = CHR 0x09 \<or> c = CHR 0x0A \<or> c = CHR 0x0B \<or> c = CHR 0x0C \<or> c = CHR 0x0D \<or>
      c = CHR 0x20 \<or> c = CHR 0xA0)"

definition isDigit :: "char \<Rightarrow> bool" where
  "isDigit c = (c \<in> set ''0123456789'')"

text \<open>The characters that \<open>.\<close> does not match.\<close>

definition isLineTerminator :: "char \<Rightarrow> bool" where
  "isLineTerminator c = (c = CHR 0x0A \<or> c = CHR 0x0D)"

definition newline :: char where
  "newline = CHR 0x0A"

definition trim :: "string \<Rightarrow> string" where
  "trim s = rev (dropWhile isSpace (rev (dropWhile isSpace s)))"

text \<open>\<open>s.split(sep)\<close> for a one-character separator.\<close>

fun splitOn :: "char \<Rightarrow> string \<Rightarrow> string \<Rightarrow> string list" where
  "splitOn sep cur [] = [cur]"
| "splitOn sep cur (c # cs) =
     (if c = sep then cur # splitOn sep [] cs else splitOn sep (cur @ [c]) cs)"

definition splitLines :: "string \<Rightarrow> string list" where
  "splitLines s = splitOn newline [] s"

text \<open>
  \<open>s.split(/\s+/)\<close>: every maximal run of white space is one separator; a string
  that starts or ends with white space gets an empty first or last piece.
\<close>

function splitWsLoop :: "string \<Rightarrow> string \<Rightarrow> string list" where
  "splitWsLoop cur [] = [cur]"
| "splitWsLoop cur (c # cs) =
     (if isSpace c then cur # splitWsLoop [] (dropWhile isSpace cs)
      else splitWsLoop (cur @ [c]) cs)"
  by pat_completeness auto
termination
  by (relation "measure (\<lambda>(cur, s). length s)")
     (auto simp: length_dropWhile_le less_Suc_eq_le)

definition splitWs :: "string \<Rightarrow> string list" where
  "splitWs s = splitWsLoop [] s"

fun startsWith :: "string \<Rightarrow> string \<Rightarrow> bool" where
  "startsWith s [] = True"
| "startsWith [] (p # ps) = False"
| "startsWith (c # cs) (p # ps) = (c = p \<and> startsWith cs ps)"

text \<open>\<open>s.includes(sub)\<close> (\<open>includes\<close> is a keyword of the theory language).\<close>

fun includesStr :: "string \<Rightarrow> string \<Rightarrow> bool" where
  "includesStr [] sub = (sub = [])"
| "includesStr (c # cs) sub = (startsWith (c # cs) sub \<or> includesStr cs sub)"

section \<open>\<open>calculateIndentation\<close>\<close>

text \<open>
  \<open>/^(\s*(?:[-*]|\d+\.)\s+)/\<close>: leading white space, then a dash or a star, or
  digits and a dot, then at least one white-space character.
\<close>

definition listMarkerMatch :: "string \<Rightarrow> bool" where
  "listMarkerMatch s =
     (case dropWhile isSpace s of
        [] \<Rightarrow> False
      | c # cs \<Rightarrow>
          if c = CHR ''-'' \<or> c = CHR ''*'' then
            (case cs of [] \<Rightarrow> False | d # _ \<Rightarrow> isSpace d)
          else if isDigit c then
            (case dropWhile isDigit cs of
               d # e # _ \<Rightarrow> d = CHR ''.'' \<and> isSpace e
             | _ \<Rightarrow> False)
          else False)"

definition calculateIndentation :: "string \<Rightarrow> real" where
  "calculateIndentation s =
     (let baseIndent = real (length (takeWhile isSpace s) div 2) * 0.25
      in if listMarkerMatch s then baseIndent + 0.25
         else if baseIndent > 0 then baseIndent + 0.75
         else if length (trim s) > 0 then baseIndent + 0.25
         else baseIndent)"

section \<open>\<open>renderJustifiedLine\<close>\<close>

definition spaceText :: string where
  "spaceText = '' ''"

text \<open>
  One iteration of the loop of the branch \<open>isLastLine || segments.length <= 1\<close>; the
  state is the surface and \<open>currentX\<close>.
\<close>

definition renderLastStep ::
  "Metrics \<Rightarrow> real \<Rightarrow> jsPDF \<times> real \<Rightarrow> TextSegment \<Rightarrow> jsPDF \<times> real" where
  "renderLastStep m y st segment =
     (let doc1 = applyStyle (fst st) (style segment) (docFontSize (fst st)) (fontName (fst st));
          doc2 = drawText (text' segment) (snd st) y False doc1
      in (doc2, snd st + getTextWidth m doc2
            (text' segment @ (if text' segment = spaceText then [] else spaceText))))"

text \<open>The first loop of the justified branch: the total measured width.\<close>

definition measureStep ::
  "Metrics \<Rightarrow> jsPDF \<times> real \<Rightarrow> TextSegment \<Rightarrow> jsPDF \<times> real" where
  "measureStep m st segment =
     (let doc1 = applyStyle (fst st) (style segment) (docFontSize (fst st)) (fontName (fst st))
      in (doc1, snd st + getTextWidth m doc1 (text' segment)))"

text \<open>
  One iteration of the drawing loop of the justified branch, for the run at
  \<open>index\<close> of \<open>n\<close> runs.
\<close>

definition renderJustifiedStep ::
  "Metrics \<Rightarrow> real \<Rightarrow> real \<Rightarrow> nat \<Rightarrow> jsPDF \<times> real \<Rightarrow> TextSegment \<times> nat \<Rightarrow> jsPDF \<times> real" where
  "renderJustifiedStep m y extraSpacePerGap n st si =
     (let segment = fst si; index = snd si;
          doc1 = applyStyle (fst st) (style segment) (docFontSize (fst st)) (fontName (fst st));
          doc2 = drawText (text' segment) (snd st) y False doc1;
          currentX = snd st + getTextWidth m doc2 (text' segment)
      in if text' segment = spaceText \<and> int index < int n - 1
         then (doc2, currentX + extraSpacePerGap)
         else (doc2, currentX))"

definition numberOfSpaces :: "TextSegment list \<Rightarrow> nat" where
  "numberOfSpaces segments = length (filter (\<lambda>s. text' s = spaceText) segments)"

definition extraSpacePerGap :: "Metrics \<Rightarrow> jsPDF \<Rightarrow> TextSegment list \<Rightarrow> real \<Rightarrow> real" where
  "extraSpacePerGap m doc segments maxW =
     (let totalTextWidth = snd (foldl (measureStep m) (doc, 0) segments);
          remainingSpace = max 0 (maxW - totalTextWidth)
      in if numberOfSpaces segments > 0
         then remainingSpace / real (numberOfSpaces segments) else 0)"

text \<open>
  \<open>renderJustifiedLine\<close>, with the final \<open>currentX\<close> beside the surface (the source
  drops it).
\<close>

definition renderJustifiedCursor ::
  "Metrics \<Rightarrow> jsPDF \<Rightarrow> TextSegment list \<Rightarrow> real \<Rightarrow> real \<Rightarrow> real \<Rightarrow> bool \<Rightarrow> jsPDF \<times> real" where
  "renderJustifiedCursor m doc segments x y maxW isLastLine =
     (if isLastLine \<or> length segments \<le> 1 then
        foldl (renderLastStep m y) (doc, x) segments
      else
        let doc1 = fst (foldl (measureStep m) (doc, 0) segments);
            extra = extraSpacePerGap m doc segments maxW
        in foldl (renderJustifiedStep m y extra (length segments)) (doc1, x)
             (zip segments [0..<length segments]))"

definition renderJustifiedLine ::
  "Metrics \<Rightarrow> jsPDF \<Rightarrow> TextSegment list \<Rightarrow> real \<Rightarrow> real \<Rightarrow> real \<Rightarrow> bool \<Rightarrow> jsPDF" where
  "renderJustifiedLine m doc segments x y maxW isLastLine =
     fst (renderJustifiedCursor m doc segments x y maxW isLastLine)"

section \<open>\<open>splitWordIfNeeded\<close>\<close>

text \<open>
  The \<open>for\<close> loop over the characters of the word; the state is \<open>result\<close> and
  \<open>currentPart\<close>.
\<close>

fun splitWordLoop ::
  "Metrics \<Rightarrow> jsPDF \<Rightarrow> TextStyle \<Rightarrow> real \<Rightarrow> string \<Rightarrow> TextSegment list \<Rightarrow> string
   \<Rightarrow> TextSegment list \<times> string" where
  "splitWordLoop m doc st maxW [] result currentPart = (result, currentPart)"
| "splitWordLoop m doc st maxW (char # rest) result currentPart =
     (if getTextWidth m doc (currentPart @ [char]) > maxW * 0.95 then
        (if length currentPart \<ge> 2 then
           splitWordLoop m doc st maxW rest
             (result @ [\<lparr>text' = currentPart @ ''-'', style = st\<rparr>]) [char]
         else if length currentPart > 0 then
           splitWordLoop m doc st maxW rest
             (result @ [\<lparr>text' = currentPart, style = st\<rparr>]) [char]
         else
           splitWordLoop m doc st maxW rest
             (result @ [\<lparr>text' = [char], style = st\<rparr>]) [])
      else splitWordLoop m doc st maxW rest result (currentPart @ [char]))"

definition splitWordIfNeeded ::
  "Metrics \<Rightarrow> string \<Rightarrow> TextStyle \<Rightarrow> jsPDF \<Rightarrow> real \<Rightarrow> jsPDF \<times> TextSegment list" where
  "splitWordIfNeeded m word st doc maxW =
     (let doc1 = applyStyle doc st (docFontSize doc) (fontName doc)
      in if getTextWidth m doc1 word \<le> maxW then (doc1, [\<lparr>text' = word, style = st\<rparr>])
         else
           (case splitWordLoop m doc1 st maxW word [] [] of
              (result, currentPart) \<Rightarrow>
                (doc1, if length currentPart > 0
                       then result @ [\<lparr>text' = currentPart, style = st\<rparr>]
                       else result)))"

section \<open>\<open>splitTextToLines\<close>\<close>

text \<open>
  The mutable state of the greedy pass. \<open>lines\<close> of the source is the committed
  lines followed by one empty placeholder at index \<open>currentLine\<close>; \<open>bs_lines\<close> is
  the committed lines, and the placeholder is put back before the final filter.
\<close>

record BreakState =
  bs_doc :: jsPDF
  bs_lines :: "TextSegment list list"
  currentLineSegments :: "TextSegment list"
  currentLineWidth :: real

definition commitLine :: "BreakState \<Rightarrow> BreakState" where
  "commitLine st =
     (if length (currentLineSegments st) > 0 then
        st\<lparr>bs_lines := bs_lines st @ [currentLineSegments st],
           currentLineSegments := [], currentLineWidth := 0\<rparr>
      else st)"

definition pushSegment :: "TextSegment \<Rightarrow> BreakState \<Rightarrow> BreakState" where
  "pushSegment seg st = st\<lparr>currentLineSegments := currentLineSegments st @ [seg]\<rparr>"

text \<open>The \<open>parts.forEach\<close> loop for the pieces of a word that was split.\<close>

definition placePart :: "Metrics \<Rightarrow> BreakState \<Rightarrow> TextSegment \<times> nat \<Rightarrow> BreakState" where
  "placePart m st p =
     (let st1 = (if snd p > 0 then commitLine st else st)
      in (pushSegment (fst p) st1)
           \<lparr>currentLineWidth := getTextWidth m (bs_doc st1) (text' (fst p))\<rparr>)"

text \<open>The body of \<open>words.forEach\<close> for one word of a run.\<close>

definition placeWord ::
  "Metrics \<Rightarrow> real \<Rightarrow> real \<Rightarrow> string \<Rightarrow> TextSegment \<Rightarrow> BreakState \<Rightarrow> string \<Rightarrow> BreakState" where
  "placeWord m availableWidth spaceWidth f segment st0 word =
     (if word = [] then st0
      else
        let doc1 = applyStyle (bs_doc st0) (style segment) (docFontSize (bs_doc st0)) f;
            st = st0\<lparr>bs_doc := doc1\<rparr>;
            wordWidth = getTextWidth m doc1 word;
            totalWidth = currentLineWidth st
              + (if length (currentLineSegments st) > 0 then spaceWidth else 0) + wordWidth
        in if totalWidth \<le> availableWidth then
             let st1 = (if length (currentLineSegments st) > 0
                        then (pushSegment \<lparr>text' = spaceText, style = style segment\<rparr> st)
                               \<lparr>currentLineWidth := currentLineWidth st + spaceWidth\<rparr>
                        else st)
             in (pushSegment \<lparr>text' = word, style = style segment\<rparr> st1)
                  \<lparr>currentLineWidth := currentLineWidth st1 + wordWidth\<rparr>
           else if wordWidth \<le> availableWidth then
             (pushSegment \<lparr>text' = word, style = style segment\<rparr> (commitLine st))
               \<lparr>currentLineWidth := wordWidth\<rparr>
           else
             let st1 = (if length (currentLineSegments st) > 0 then commitLine st else st)
             in (case splitWordIfNeeded m word (style segment) (bs_doc st1) availableWidth of
                   (doc2, parts) \<Rightarrow>
                     foldl (placePart m) (st1\<lparr>bs_doc := doc2\<rparr>)
                       (zip parts [0..<length parts])))"

definition placeSegment ::
  "Metrics \<Rightarrow> real \<Rightarrow> real \<Rightarrow> string \<Rightarrow> BreakState \<Rightarrow> TextSegment \<Rightarrow> BreakState" where
  "placeSegment m availableWidth spaceWidth f st segment =
     foldl (placeWord m availableWidth spaceWidth f segment) st (splitWs (text' segment))"

text \<open>The greedy pass, up to and including \<open>lines.filter(line => line.length > 0)\<close>.\<close>

definition greedyLines ::
  "Metrics \<Rightarrow> jsPDF \<Rightarrow> TextSegment list \<Rightarrow> real \<Rightarrow> real \<Rightarrow> string
   \<Rightarrow> jsPDF \<times> TextSegment list list" where
  "greedyLines m doc segments maxW baseIndentation f =
     (let availableWidth = maxW - baseIndentation * docFontSize doc;
          spaceWidth = getTextWidth m doc spaceText;
          st0 = \<lparr>bs_doc = doc, bs_lines = [], currentLineSegments = [], currentLineWidth = 0\<rparr>;
          st1 = foldl (placeSegment m availableWidth spaceWidth f) st0 segments;
          st2 = (if length (currentLineSegments st1) > 0 then commitLine st1 else st1)
      in (bs_doc st2, filter (\<lambda>line. length line > 0) (bs_lines st2 @ [[]])))"

text \<open>The width loop at the head of the \<open>map\<close> callback.\<close>

definition lineWidthStep ::
  "Metrics \<Rightarrow> string \<Rightarrow> jsPDF \<times> real \<Rightarrow> TextSegment \<Rightarrow> jsPDF \<times> real" where
  "lineWidthStep m f st segment =
     (let doc1 = applyStyle (fst st) (style segment) (docFontSize (fst st)) f
      in (doc1, snd st + getTextWidth m doc1 (text' segment)))"

text \<open>
  The repair loop over the runs of a line that is too wide; the state is the
  surface, \<open>newLine\<close> and \<open>currentWidth\<close>.
\<close>

definition keepPart ::
  "Metrics \<Rightarrow> real \<Rightarrow> jsPDF \<Rightarrow> TextSegment list \<times> real \<Rightarrow> TextSegment
   \<Rightarrow> TextSegment list \<times> real" where
  "keepPart m availableWidth doc st part =
     (if snd st + getTextWidth m doc (text' part) \<le> availableWidth
      then (fst st @ [part], snd st + getTextWidth m doc (text' part))
      else st)"

definition repairStep ::
  "Metrics \<Rightarrow> real \<Rightarrow> real \<Rightarrow> jsPDF \<times> TextSegment list \<times> real \<Rightarrow> TextSegment
   \<Rightarrow> jsPDF \<times> TextSegment list \<times> real" where
  "repairStep m availableWidth spaceWidth st segment =
     (case st of (doc, newLine, currentWidth) \<Rightarrow>
        if text' segment = spaceText then
          (if currentWidth + spaceWidth \<le> availableWidth
           then (doc, newLine @ [segment], currentWidth + spaceWidth)
           else (doc, newLine, currentWidth))
        else
          (case splitWordIfNeeded m (text' segment) (style segment) doc
                  (availableWidth - currentWidth) of
             (doc1, parts) \<Rightarrow>
               (doc1, foldl (keepPart m availableWidth doc1) (newLine, currentWidth) parts)))"

definition repairLine ::
  "Metrics \<Rightarrow> real \<Rightarrow> real \<Rightarrow> string \<Rightarrow> jsPDF \<Rightarrow> TextSegment list
   \<Rightarrow> jsPDF \<times> TextSegment list" where
  "repairLine m availableWidth spaceWidth f doc line =
     (case foldl (lineWidthStep m f) (doc, 0) line of
        (doc1, lineWidth) \<Rightarrow>
          if lineWidth > availableWidth then
            (case foldl (repairStep m availableWidth spaceWidth) (doc1, [], 0) line of
               (doc2, newLine, currentWidth) \<Rightarrow> (doc2, newLine))
          else (doc1, line))"

text \<open>\<open>.map\<close> over the lines, the surface threaded through the callbacks.\<close>

fun repairLines ::
  "Metrics \<Rightarrow> real \<Rightarrow> real \<Rightarrow> string \<Rightarrow> jsPDF \<Rightarrow> TextSegment list list
   \<Rightarrow> jsPDF \<times> TextSegment list list" where
  "repairLines m availableWidth spaceWidth f doc [] = (doc, [])"
| "repairLines m availableWidth spaceWidth f doc (line # rest) =
     (case repairLine m availableWidth spaceWidth f doc line of
        (doc1, line1) \<Rightarrow>
          (case repairLines m availableWidth spaceWidth f doc1 rest of
             (doc2, rest1) \<Rightarrow> (doc2, line1 # rest1)))"

definition splitTextToLines ::
  "Metrics \<Rightarrow> jsPDF \<Rightarrow> TextSegment list \<Rightarrow> real \<Rightarrow> real \<Rightarrow> string
   \<Rightarrow> jsPDF \<times> TextSegment list list" where
  "splitTextToLines m doc segments maxW baseIndentation f =
     (case greedyLines m doc segments maxW baseIndentation f of
        (doc1, ls) \<Rightarrow>
          repairLines m (maxW - baseIndentation * docFontSize doc)
            (getTextWidth m doc spaceText) f doc1 ls)"

section \<open>\<open>formatPDFTableOfContents\<close>\<close>

definition isRoman :: "char \<Rightarrow> bool" where
  "isRoman c = (c \<in> set ''ivxlcdmIVXLCDM'')"

text \<open>\<open>toLowerCase\<close> on one 8-bit character.\<close>

definition toLowerChar :: "char \<Rightarrow> char" where
  "toLowerChar c =
     (let n = (of_char c :: nat)
      in if (65 \<le> n \<and> n \<le> 90) \<or> (192 \<le> n \<and> n \<le> 222 \<and> n \<noteq> 215)
         then char_of (n + 32) else c)"

definition toLowerCase :: "string \<Rightarrow> string" where
  "toLowerCase s = map toLowerChar s"

text \<open>
  The token \<open>(\d+|[ivxlcdm]+)$\<close> under the flag \<open>i\<close>: the whole rest of the string,
  not empty, all digits or all roman-numeral letters of either case.
\<close>

definition pageToken :: "string \<Rightarrow> string option" where
  "pageToken r =
     (if r \<noteq> [] \<and> (list_all isDigit r \<or> list_all isRoman r) then Some r else None)"

text \<open>
  \<open>/(?:- Halaman\s*)?(\d+|[ivxlcdm]+)$/i\<close> tried at the start of \<open>s\<close>: the optional
  group first, then without it. The result is capture group 1.
\<close>

definition matchPageAt :: "string \<Rightarrow> string option" where
  "matchPageAt s =
     (if startsWith (toLowerCase (take 9 s)) ''- halaman'' then
        (case pageToken (dropWhile isSpace (drop 9 s)) of
           Some t \<Rightarrow> Some t
         | None \<Rightarrow> pageToken s)
      else pageToken s)"

text \<open>
  \<open>trimmedLine.match(...)\<close>: the leftmost index at which the pattern matches, with
  capture group 1.
\<close>

fun findPageMatch :: "string \<Rightarrow> (nat \<times> string) option" where
  "findPageMatch [] = map_option (\<lambda>t. (0, t)) (matchPageAt [])"
| "findPageMatch (c # cs) =
     (case matchPageAt (c # cs) of
        Some t \<Rightarrow> Some (0, t)
      | None \<Rightarrow> map_option (\<lambda>r. (Suc (fst r), snd r)) (findPageMatch cs))"

text \<open>\<open>content.replace(/- Halaman\s*$/, '')\<close>: the leftmost match is removed.\<close>

fun stripHalaman :: "string \<Rightarrow> string" where
  "stripHalaman [] = []"
| "stripHalaman (c # cs) =
     (if startsWith (c # cs) ''- Halaman'' \<and> list_all isSpace (drop 9 (c # cs)) then []
      else c # stripHalaman cs)"

text \<open>\<open>/^Bab\s+\d+/i\<close>.\<close>

definition matchBab :: "string \<Rightarrow> bool" where
  "matchBab s =
     (startsWith (toLowerCase (take 3 s)) ''bab'' \<and>
      (case drop 3 s of
         [] \<Rightarrow> False
       | c # cs \<Rightarrow> isSpace c \<and>
           (case dropWhile isSpace cs of [] \<Rightarrow> False | d # _ \<Rightarrow> isDigit d)))"

text \<open>\<open>/^\d+\.\d+/\<close>.\<close>

definition matchSubChapter :: "string \<Rightarrow> bool" where
  "matchSubChapter s =
     (case s of
        [] \<Rightarrow> False
      | c # cs \<Rightarrow> isDigit c \<and>
          (case dropWhile isDigit cs of
             d # e # _ \<Rightarrow> d = CHR ''.'' \<and> isDigit e
           | _ \<Rightarrow> False))"

text \<open>
  \<open>/\s+(.+)/\<close> tried at the start of \<open>s\<close>, the white-space run taking \<open>k\<close>
  characters at most and giving characters back until \<open>.+\<close> finds one character
  that is no line terminator. The result is the capture and the rest after the match.
\<close>

fun wsCaptureUpTo :: "nat \<Rightarrow> string \<Rightarrow> (string \<times> string) option" where
  "wsCaptureUpTo 0 s = None"
| "wsCaptureUpTo (Suc k) s =
     (let cap = takeWhile (\<lambda>c. \<not> isLineTerminator c) (drop (Suc k) s)
      in if cap \<noteq> [] then Some (cap, drop (Suc k + length cap) s)
         else wsCaptureUpTo k s)"

definition wsCapture :: "string \<Rightarrow> (string \<times> string) option" where
  "wsCapture s = wsCaptureUpTo (length (takeWhile isSpace s)) s"

text \<open>
  \<open>content.split(/\s+(.+)/)\<close>: the pieces between the matches, each match followed by
  its capture; \<open>cur\<close> is the piece since the last match.
\<close>

lemma wsCaptureUpTo_shorter:
  "wsCaptureUpTo k s = Some r \<Longrightarrow> length (snd r) < length s"
proof (induction k)
  case 0
  then show ?case by simp
next
  case (Suc k)
  show ?case
  proof (cases "takeWhile (\<lambda>c. \<not> isLineTerminator c) (drop (Suc k) s) = []")
    case True
    with Suc show ?thesis by simp
  next
    case False
    then have "drop (Suc k) s \<noteq> []" by auto
    then have "Suc k < length s" by simp
    with False Suc.prems show ?thesis by (auto simp: Let_def)
  qed
qed

function splitCaptureLoop :: "string \<Rightarrow> string \<Rightarrow> string list" where
  "splitCaptureLoop cur [] = [cur]"
| "splitCaptureLoop cur (c # cs) =
     (case wsCapture (c # cs) of
        None \<Rightarrow> splitCaptureLoop (cur @ [c]) cs
      | Some r \<Rightarrow> cur # fst r # splitCaptureLoop [] (snd r))"
  by pat_completeness auto
termination
proof (relation "measure (\<lambda>(cur, s). length s)")
  fix cur :: string and c :: char and cs :: string and r :: "string \<times> string"
  assume "wsCapture (c # cs) = Some r"
  then have "length (snd r) < length (c # cs)"
    unfolding wsCapture_def by (rule wsCaptureUpTo_shorter)
  then show "(([], snd r), (cur, c # cs)) \<in> measure (\<lambda>(cur, s). length s)"
    by simp
qed auto

definition splitCapture :: "string \<Rightarrow> string list" where
  "splitCapture s = splitCaptureLoop [] s"

text \<open>\<open>parts.join(' ')\<close>.\<close>

fun joinSpace :: "string list \<Rightarrow> string" where
  "joinSpace [] = []"
| "joinSpace [p] = p"
| "joinSpace (p # q # ps) = p @ spaceText @ joinSpace (q # ps)"

text \<open>
  The part of a line of the table of contents that is text analysis: the page
  number, \<open>content\<close>, and \<open>prefix\<close>, \<open>title\<close>, \<open>indent\<close> and the font style of its shape.
\<close>

record TocEntry =
  pageNumber :: string
  content :: string
  prefix :: string
  title :: string
  indent :: real
  entryStyle :: FontStyle

definition tocContent :: "string \<Rightarrow> string \<times> string" where
  "tocContent trimmedLine =
     (case findPageMatch trimmedLine of
        Some r \<Rightarrow> (snd r, trim (stripHalaman (trim (take (fst r) trimmedLine))))
      | None \<Rightarrow> ([], trim (stripHalaman trimmedLine)))"

definition tocEntry :: "string \<Rightarrow> TocEntry" where
  "tocEntry trimmedLine =
     (case tocContent trimmedLine of
        (pn, c) \<Rightarrow>
          if startsWith (toLowerCase c) ''kata pengantar'' then
            \<lparr>pageNumber = pn, content = c, prefix = [], title = c, indent = 0,
             entryStyle = Bold\<rparr>
          else if matchBab c then
            \<lparr>pageNumber = pn, content = c, prefix = hd (splitCapture c),
             title = trim (joinSpace (tl (splitCapture c))), indent = 0, entryStyle = Bold\<rparr>
          else if matchSubChapter c then
            \<lparr>pageNumber = pn, content = c, prefix = hd (splitCapture c),
             title = trim (joinSpace (tl (splitCapture c))), indent = 10, entryStyle = Normal\<rparr>
          else
            \<lparr>pageNumber = pn, content = c, prefix = [], title = c, indent = 0,
             entryStyle = Normal\<rparr>)"

definition tocLineHeight :: "PDFMarkdownOptions \<Rightarrow> real" where
  "tocLineHeight options = fontSize options * 0.352778 * lineHeight options"

text \<open>
  The body of the loop over the lines; the state is the surface and \<open>currentY\<close>.
  Widths are not negative, so the dot pitch \<open>dotWidth + dotSpacing\<close> is positive.
\<close>

definition formatTocLine ::
  "Metrics \<Rightarrow> PDFMarkdownOptions \<Rightarrow> real \<Rightarrow> jsPDF \<times> real \<Rightarrow> string \<Rightarrow> jsPDF \<times> real" where
  "formatTocLine m options x st line =
     (let doc = fst st; currentY = snd st; lh = tocLineHeight options;
          trimmedLine = trim line
      in if trimmedLine = [] then (doc, currentY + lh)
         else
           let e = tocEntry trimmedLine;
               doc1 = setFont (font options) (entryStyle e) doc;
               startX = x + indent e;
               doc2 = (if prefix e \<noteq> [] then
                         drawText (title e) (startX + 15) currentY False
                           (drawText (prefix e) startX currentY False doc1)
                       else drawText (title e) startX currentY False doc1);
               titleWidth = (if prefix e \<noteq> []
                             then getTextWidth m doc2 (prefix e @ ''  '' @ title e)
                             else getTextWidth m doc2 (title e));
               dotsStart = startX + titleWidth + 5;
               dotsEnd = pageWidth doc2 - 20 - 10;
               dotWidth = getTextWidth m doc2 ''.'';
               numberOfDots = \<lfloor>(dotsEnd - dotsStart) / (dotWidth + 2)\<rfloor>;
               doc3 = setFont (font options) Normal doc2;
               doc4 = foldl (\<lambda>d i. drawText ''.'' (dotsStart + real i * (dotWidth + 2))
                                currentY False d) doc3 [0..<nat numberOfDots];
               doc5 = drawText (pageNumber e) (pageWidth doc4 - 20 - 10) currentY True doc4
           in (doc5, if matchBab (content e) then currentY + lh + lh * 0.5
                     else currentY + lh))"

definition formatPDFTableOfContents ::
  "Metrics \<Rightarrow> jsPDF \<Rightarrow> string \<Rightarrow> real \<Rightarrow> real \<Rightarrow> PDFMarkdownOptions \<Rightarrow> jsPDF \<times> real" where
  "formatPDFTableOfContents m doc s x y options =
     foldl (formatTocLine m options x) (doc, y) (splitLines s)"

section \<open>\<open>parsePDFMarkdown\<close>\<close>

text \<open>\<open>text.replace(/---/g, '\n')\<close>.\<close>

fun replaceRules :: "string \<Rightarrow> string" where
  "replaceRules (a # b # c # rest) =
     (if a = CHR ''-'' \<and> b = CHR ''-'' \<and> c = CHR ''-'' then newline # replaceRules rest
      else a # replaceRules (b # c # rest))"
| "replaceRules s = s"

text \<open>\<open>text.replace(/\n{2,}/g, '\n')\<close>.\<close>

function collapseNewlines :: "string \<Rightarrow> string" where
  "collapseNewlines [] = []"
| "collapseNewlines (c # cs) =
     (if c = newline \<and> startsWith cs [newline]
      then newline # collapseNewlines (dropWhile (\<lambda>d. d = newline) cs)
      else c # collapseNewlines cs)"
  by pat_completeness auto
termination
  by (relation "measure length") (auto simp: length_dropWhile_le less_Suc_eq_le)

definition normalizeText :: "string \<Rightarrow> string" where
  "normalizeText s = collapseNewlines (replaceRules s)"

definition isTocText :: "string \<Rightarrow> bool" where
  "isTocText s =
     (includesStr s ''- Halaman'' \<and> (includesStr s ''Bab'' \<or> includesStr s ''Kata Pengantar''))"

text \<open>
  \<open>/\s+(.+)$/\<close> tried at the start of \<open>r\<close>, the tail of the three line patterns: the
  white-space run takes \<open>k\<close> characters at most and gives characters back until
  the rest of the string is not empty and has no line terminator.
\<close>

fun wsRestUpTo :: "nat \<Rightarrow> string \<Rightarrow> string option" where
  "wsRestUpTo 0 r = None"
| "wsRestUpTo (Suc k) r =
     (if drop (Suc k) r \<noteq> [] \<and> list_all (\<lambda>c. \<not> isLineTerminator c) (drop (Suc k) r)
      then Some (drop (Suc k) r) else wsRestUpTo k r)"

definition wsRest :: "string \<Rightarrow> string option" where
  "wsRest r = wsRestUpTo (length (takeWhile isSpace r)) r"

text \<open>\<open>/^(#{1,6})\s+(.+)$/\<close>: the level and the content.\<close>

definition headerMatch :: "string \<Rightarrow> (nat \<times> string) option" where
  "headerMatch s =
     (let level = length (takeWhile (\<lambda>c. c = CHR ''#'') s)
      in if 1 \<le> level \<and> level \<le> 6
         then map_option (\<lambda>c. (level, c)) (wsRest (drop level s))
         else None)"

text \<open>\<open>/^(\d+)\.\s+(.+)$/\<close>: the number and the content.\<close>

definition orderedListMatch :: "string \<Rightarrow> (string \<times> string) option" where
  "orderedListMatch s =
     (let num = takeWhile isDigit s
      in if num \<noteq> [] \<and> startsWith (drop (length num) s) ''.''
         then map_option (\<lambda>c. (num, c)) (wsRest (drop (Suc (length num)) s))
         else None)"

text \<open>\<open>/^[-*]\s+(.+)$/\<close>: the content.\<close>

definition unorderedListMatch :: "string \<Rightarrow> string option" where
  "unorderedListMatch s =
     (case s of
        [] \<Rightarrow> None
      | c # cs \<Rightarrow> if c = CHR ''-'' \<or> c = CHR ''*'' then wsRest cs else None)"

text \<open>The bullet glyph U+2022, as its UTF-8 bytes.\<close>

definition bullet :: string where
  "bullet = [CHR 0xE2, CHR 0x80, CHR 0xA2]"

definition marginTop :: real where
  "marginTop = 20"

definition marginBottom :: real where
  "marginBottom = 20"

definition flowLineHeight :: "PDFMarkdownOptions \<Rightarrow> real" where
  "flowLineHeight options = fontSize options * 0.352778 * lineHeight options"

definition maxY :: "jsPDF \<Rightarrow> real" where
  "maxY doc = pageHeight doc - marginBottom"

text \<open>\<open>addNewPage\<close>, on the surface and the cursor.\<close>

definition addNewPage :: "PDFMarkdownOptions \<Rightarrow> jsPDF \<Rightarrow> jsPDF \<times> real" where
  "addNewPage options doc = (addPage doc, marginTop + fontSize options)"

text \<open>\<open>if (currentY + lineHeight > maxY) currentY = addNewPage()\<close>.\<close>

definition pageBreakCheck :: "PDFMarkdownOptions \<Rightarrow> jsPDF \<times> real \<Rightarrow> jsPDF \<times> real" where
  "pageBreakCheck options st =
     (if snd st + flowLineHeight options > maxY (fst st) then addNewPage options (fst st)
      else st)"

text \<open>
  The source has the loop over the wrapped lines four times, for a heading, an
  ordered item, an unordered item and a paragraph. The copies differ in four
  numbers only: the left \<open>xOffset\<close>, the width passed to \<open>renderJustifiedLine\<close>, and
  the base and the width of the centred position. These are the fields of
  \<open>Column\<close>; the right-aligned position is \<open>x + maxWidth - totalWidth\<close> in all four.
\<close>

record Column =
  xLeft :: real
  justifyWidth :: real
  centerBase :: real
  centerWidth :: real

definition flowColumn :: "PDFMarkdownOptions \<Rightarrow> real \<Rightarrow> real \<Rightarrow> Column" where
  "flowColumn options x baseIndentation =
     \<lparr>xLeft = x + baseIndentation * fontSize options,
      justifyWidth = maxWidth options - baseIndentation * fontSize options,
      centerBase = x, centerWidth = maxWidth options\<rparr>"

definition listColumn :: "PDFMarkdownOptions \<Rightarrow> real \<Rightarrow> real \<Rightarrow> Column" where
  "listColumn options x listIndent =
     \<lparr>xLeft = x + listIndent + 5,
      justifyWidth = maxWidth options - (listIndent + 5),
      centerBase = x + listIndent + 5,
      centerWidth = maxWidth options - listIndent - 5\<rparr>"

definition totalWidthStep ::
  "Metrics \<Rightarrow> PDFMarkdownOptions \<Rightarrow> jsPDF \<times> real \<Rightarrow> TextSegment \<Rightarrow> jsPDF \<times> real" where
  "totalWidthStep m options st segment =
     (let doc1 = applyStyle (fst st) (style segment) (fontSize options) (font options)
      in (doc1, snd st + getTextWidth m doc1 (text' segment)))"

definition drawStep ::
  "Metrics \<Rightarrow> PDFMarkdownOptions \<Rightarrow> real \<Rightarrow> jsPDF \<times> real \<Rightarrow> TextSegment \<Rightarrow> jsPDF \<times> real" where
  "drawStep m options y st segment =
     (let doc1 = applyStyle (fst st) (style segment) (fontSize options) (font options);
          doc2 = drawText (text' segment) (snd st) y False doc1
      in (doc2, snd st + getTextWidth m doc2 (text' segment)))"

text \<open>The \<open>else\<close> branch of \<open>options.align === 'justify'\<close>.\<close>

definition drawAlignedLine ::
  "Metrics \<Rightarrow> PDFMarkdownOptions \<Rightarrow> real \<Rightarrow> Column \<Rightarrow> jsPDF \<Rightarrow> TextSegment list \<Rightarrow> real
   \<Rightarrow> jsPDF" where
  "drawAlignedLine m options x col doc lineSegments y =
     (case foldl (totalWidthStep m options) (doc, 0) lineSegments of
        (doc1, totalWidth) \<Rightarrow>
          let xOffset =
                (if align options = Some Center
                 then centerBase col + (centerWidth col - totalWidth) / 2
                 else if align options = Some Right
                 then x + maxWidth options - totalWidth
                 else xLeft col)
          in fst (foldl (drawStep m options y) (doc1, xOffset) lineSegments))"

text \<open>The body of \<open>lines.forEach\<close> for the wrapped line at \<open>lineIndex\<close> of \<open>n\<close>.\<close>

definition emitLine ::
  "Metrics \<Rightarrow> PDFMarkdownOptions \<Rightarrow> real \<Rightarrow> Column \<Rightarrow> nat \<Rightarrow> jsPDF \<times> real
   \<Rightarrow> TextSegment list \<times> nat \<Rightarrow> jsPDF \<times> real" where
  "emitLine m options x col n st li =
     (case pageBreakCheck options st of
        (doc, currentY) \<Rightarrow>
          (if align options = Some Justify
           then renderJustifiedLine m doc (fst li) (xLeft col) currentY (justifyWidth col)
                  (int (snd li) = int n - 1)
           else drawAlignedLine m options x col doc (fst li) currentY,
           currentY + flowLineHeight options))"

definition emitLines ::
  "Metrics \<Rightarrow> PDFMarkdownOptions \<Rightarrow> real \<Rightarrow> Column \<Rightarrow> jsPDF \<times> real
   \<Rightarrow> TextSegment list list \<Rightarrow> jsPDF \<times> real" where
  "emitLines m options x col st ls =
     foldl (emitLine m options x col (length ls)) st (zip ls [0..<length ls])"

definition flowHeading ::
  "Metrics \<Rightarrow> PDFMarkdownOptions \<Rightarrow> real \<Rightarrow> real \<Rightarrow> nat \<Rightarrow> string \<Rightarrow> jsPDF \<times> real
   \<Rightarrow> jsPDF \<times> real" where
  "flowHeading m options x baseIndentation level c st =
     (case pageBreakCheck options st of
        (doc, currentY) \<Rightarrow>
          let doc1 = setFont (font options) Bold
                       (setFontSize (fontSize options * (2.5 - real level * 0.3)) doc)
          in (case splitTextToLines m doc1 (parseInlineMarkdown c) (maxWidth options)
                     baseIndentation (font options) of
                (doc2, ls) \<Rightarrow>
                  (case emitLines m options x (flowColumn options x baseIndentation)
                          (doc2, currentY) ls of
                     (doc3, y3) \<Rightarrow>
                       (setFont (font options) Normal (setFontSize (fontSize options) doc3),
                        y3))))"

definition flowListItem ::
  "Metrics \<Rightarrow> PDFMarkdownOptions \<Rightarrow> real \<Rightarrow> real \<Rightarrow> string \<Rightarrow> string \<Rightarrow> jsPDF \<times> real
   \<Rightarrow> jsPDF \<times> real" where
  "flowListItem m options x baseIndentation label c st =
     (case pageBreakCheck options st of
        (doc, currentY) \<Rightarrow>
          let listIndent = baseIndentation * fontSize options;
              doc1 = drawText label (x + listIndent) currentY False doc
          in (case splitTextToLines m doc1 (parseInlineMarkdown c)
                     (maxWidth options - (listIndent + 5)) baseIndentation (font options) of
                (doc2, ls) \<Rightarrow>
                  emitLines m options x (listColumn options x listIndent) (doc2, currentY) ls))"

definition flowParagraph ::
  "Metrics \<Rightarrow> PDFMarkdownOptions \<Rightarrow> real \<Rightarrow> real \<Rightarrow> string \<Rightarrow> jsPDF \<times> real
   \<Rightarrow> jsPDF \<times> real" where
  "flowParagraph m options x baseIndentation line st =
     (case pageBreakCheck options st of
        (doc, currentY) \<Rightarrow>
          (case splitTextToLines m doc (parseInlineMarkdown line) (maxWidth options)
                  baseIndentation (font options) of
             (doc2, ls) \<Rightarrow>
               emitLines m options x (flowColumn options x baseIndentation) (doc2, currentY) ls))"

text \<open>The body of the loop over \<open>textLines\<close>.\<close>

definition flowLine ::
  "Metrics \<Rightarrow> PDFMarkdownOptions \<Rightarrow> real \<Rightarrow> jsPDF \<times> real \<Rightarrow> string \<Rightarrow> jsPDF \<times> real" where
  "flowLine m options x st rawLine =
     (let baseIndentation = calculateIndentation rawLine;
          line = trim rawLine
      in if line = [] then
           (if snd st + flowLineHeight options > maxY (fst st)
            then addNewPage options (fst st)
            else (fst st, snd st + flowLineHeight options))
         else
           (case headerMatch line of
              Some hm \<Rightarrow> flowHeading m options x baseIndentation (fst hm) (snd hm) st
            | None \<Rightarrow>
                (case orderedListMatch line of
                   Some om \<Rightarrow>
                     flowListItem m options x baseIndentation (fst om @ ''.'') (snd om) st
                 | None \<Rightarrow>
                     (case unorderedListMatch line of
                        Some c \<Rightarrow> flowListItem m options x baseIndentation bullet c st
                      | None \<Rightarrow> flowParagraph m options x baseIndentation line st))))"

text \<open>The normal flow: everything after the table-of-contents test.\<close>

definition pageFlow ::
  "Metrics \<Rightarrow> jsPDF \<Rightarrow> string \<Rightarrow> real \<Rightarrow> real \<Rightarrow> PDFMarkdownOptions \<Rightarrow> jsPDF \<times> real" where
  "pageFlow m doc s x y options =
     foldl (flowLine m options x)
       (setFontSize (fontSize options) (setFont (font options) Normal doc), y)
       (splitLines s)"

definition parsePDFMarkdown ::
  "Metrics \<Rightarrow> jsPDF \<Rightarrow> string \<Rightarrow> real \<Rightarrow> real \<Rightarrow> PDFMarkdownOptions \<Rightarrow> jsPDF \<times> real" where
  "parsePDFMarkdown m doc s x y options =
     (if s = [] then (doc, y)
      else if isTocText (normalizeText s)
      then formatPDFTableOfContents m doc (normalizeText s) x y options
      else pageFlow m doc (normalizeText s) x y options)"

section \<open>Measured widths and the vocabulary of the properties\<close>

text \<open>
  A run whose style has no heading level, as every run built by
  \<open>parseInlineMarkdown\<close> is. For such a run \<open>applyStyle\<close> leaves the font size as
  it is, so its measured width depends on the font, its own style and the size only.
\<close>

definition plainRun :: "TextSegment \<Rightarrow> bool" where
  "plainRun seg = (heading (style seg) = None)"

text \<open>The measured width of a run in its own style.\<close>

definition segWidth :: "Metrics \<Rightarrow> string \<Rightarrow> real \<Rightarrow> TextSegment \<Rightarrow> real" where
  "segWidth m f sz seg = m f (styleName (style seg)) sz (text' seg)"

text \<open>The total measured width of a line.\<close>

definition lineWidth :: "Metrics \<Rightarrow> string \<Rightarrow> real \<Rightarrow> TextSegment list \<Rightarrow> real" where
  "lineWidth m f sz line = sum_list (map (segWidth m f sz) line)"

text \<open>The \<open>text\<close> calls that one surface has beyond an earlier one.\<close>

definition newDraws :: "jsPDF \<Rightarrow> jsPDF \<Rightarrow> DrawOp list" where
  "newDraws doc doc' = drop (length (drawn doc)) (drawn doc')"







subsection \<open>A sample surface for concrete evaluations\<close>

text \<open>
  A monospaced metrics provider: every character is 0.6 of the font size wide, in
  every font and style.
\<close>

definition monoMetrics :: Metrics where
  "monoMetrics f fs sz s = real (length s) * sz * 0.6"

definition sampleDoc :: jsPDF where
  "sampleDoc =
     \<lparr>fontName = ''helvetica'', fontStyle = Normal, docFontSize = 10, pageWidth = 210,
      pageHeight = 297, pages = 0, drawn = []\<rparr>"

definition sampleOptions :: PDFMarkdownOptions where
  "sampleOptions =
     \<lparr>maxWidth = 100, align = None, fontSize = 10, lineHeight = 1.5, font = ''helvetica''\<rparr>"

definition plainText :: "string \<Rightarrow> TextSegment" where
  "plainText s = \<lparr>text' = s, style = plainStyle\<rparr>"

text \<open>
  Two surfaces with the same \<open>text\<close> calls, page count and page size: the second
  differs from the first in the font state at most.
\<close>

definition sameCanvas :: "jsPDF \<Rightarrow> jsPDF \<Rightarrow> bool" where
  "sameCanvas doc doc' =
     (drawn doc' = drawn doc \<and> pages doc' = pages doc \<and>
      pageHeight doc' = pageHeight doc \<and> pageWidth doc' = pageWidth doc)"

text \<open>
  The second surface has the page count and page size of the first, and its \<open>text\<close>
  calls are those of the first followed by calls that all satisfy \<open>P\<close>.
\<close>

definition drawsOnly :: "(DrawOp \<Rightarrow> bool) \<Rightarrow> jsPDF \<Rightarrow> jsPDF \<Rightarrow> bool" where
  "drawsOnly P doc doc' =
     (pages doc' = pages doc \<and> pageHeight doc' = pageHeight doc \<and>
      pageWidth doc' = pageWidth doc \<and>
      (\<exists>new. drawn doc' = drawn doc @ new \<and> list_all P new))"






subsection \<open>The shape of the lines of the greedy pass\<close>

text \<open>A run that is one word: not empty and without white space.\<close>

definition isWordRun :: "TextSegment \<Rightarrow> bool" where
  "isWordRun seg = (text' seg \<noteq> [] \<and> list_all (\<lambda>c. \<not> isSpace c) (text' seg))"

text \<open>
  A line as the greedy pass builds it: word runs with one space run between
  neighbours, the space run in the style of the word after it.
\<close>

fun wordLine :: "TextSegment list \<Rightarrow> bool" where
  "wordLine [] = False"
| "wordLine [w] = isWordRun w"
| "wordLine (w # sp # rest) =
     (isWordRun w \<and> text' sp = spaceText \<and> rest \<noteq> [] \<and> style sp = style (hd rest) \<and>
      wordLine rest)"

text \<open>
  The width that the greedy pass keeps in \<open>currentLineWidth\<close>: every space run
  counts \<open>spaceWidth\<close>, every other run its measured width.
\<close>

definition trackedWidth ::
  "Metrics \<Rightarrow> string \<Rightarrow> real \<Rightarrow> real \<Rightarrow> TextSegment list \<Rightarrow> real" where
  "trackedWidth m f sz sw line =
     sum_list (map (\<lambda>s. if text' s = spaceText then sw else segWidth m f sz s) line)"

text \<open>
  What holds of every line the greedy pass commits, and of the state of the pass.
\<close>

definition goodLine ::
  "Metrics \<Rightarrow> string \<Rightarrow> real \<Rightarrow> real \<Rightarrow> real \<Rightarrow> TextSegment list \<Rightarrow> bool" where
  "goodLine m f sz sw aw line =
     (wordLine line \<and> list_all plainRun line \<and>
      (length line = 1 \<or> trackedWidth m f sz sw line \<le> aw))"

definition breakInv ::
  "Metrics \<Rightarrow> string \<Rightarrow> real \<Rightarrow> real \<Rightarrow> real \<Rightarrow> BreakState \<Rightarrow> bool" where
  "breakInv m f sz sw aw st =
     (docFontSize (bs_doc st) = sz \<and>
      list_all (goodLine m f sz sw aw) (bs_lines st) \<and>
      (if currentLineSegments st = [] then currentLineWidth st = 0
       else goodLine m f sz sw aw (currentLineSegments st) \<and>
            currentLineWidth st = trackedWidth m f sz sw (currentLineSegments st)))"

text \<open>A piece of a split word: a word run in the style of the word.\<close>

definition goodPart :: "TextStyle \<Rightarrow> TextSegment \<Rightarrow> bool" where
  "goodPart st p = (style p = st \<and> isWordRun p)"


text \<open>What holds of \<open>newLine\<close> and \<open>currentWidth\<close> in the repair loop, and of its state.\<close>

definition keptOk :: "Metrics \<Rightarrow> string \<Rightarrow> real \<Rightarrow> real \<Rightarrow> TextSegment list \<times> real \<Rightarrow> bool" where
  "keptOk m f sz aw st = (lineWidth m f sz (fst st) \<le> snd st \<and> snd st \<le> aw)"

definition repairOk ::
  "Metrics \<Rightarrow> string \<Rightarrow> real \<Rightarrow> real \<Rightarrow> jsPDF \<times> TextSegment list \<times> real \<Rightarrow> bool" where
  "repairOk m f sz aw st =
     (docFontSize (fst st) = sz \<and> fontName (fst st) = f \<and> keptOk m f sz aw (snd st))"

text \<open>
  A metrics provider whose bold characters, the space among them, are twice as
  wide as the others; bold runs; and a line of the greedy pass.
\<close>

definition boldWideMetrics :: Metrics where
  "boldWideMetrics f fs sz s =
     real (length s) * sz * (if fs = Bold \<or> fs = BoldItalic then 1.2 else 0.6)"

definition boldText :: "string \<Rightarrow> TextSegment" where
  "boldText s = \<lparr>text' = s, style = boldStyle\<rparr>"


section \<open>Properties of the inline parser\<close>

lemma concat_flushText:
  "concat (map text' (flushText segments cur st)) = concat (map text' segments) @ cur"
  by (simp add: flushText_def)

lemma concat_parseInlineLoop:
  "concat (map text' (parseInlineLoop s segments cur st)) =
     concat (map text' segments) @ cur @ filter (\<lambda>c. \<not> isMarker c) s"
  by (induction s segments cur st rule: parseInlineLoop.induct)
     (simp_all add: concat_flushText)

lemma parseInline_example:
  "parseInlineMarkdown ''**a** *b* c'' =
     [\<lparr>text' = ''a'', style = boldStyle\<rparr>,
      \<lparr>text' = '' '', style = plainStyle\<rparr>,
      \<lparr>text' = ''b'', style = italicStyle\<rparr>,
      \<lparr>text' = '' c'', style = plainStyle\<rparr>]"
  by (simp add: parseInlineMarkdown_def flushText_def isMarker_def initialStyle_def
      boldStyle_def italicStyle_def plainStyle_def)

text \<open>
  C6 (as the code has it): \<open>parseInlineMarkdown "**a** *b* c"\<close> yields the four runs
  \<open>a\<close> (bold), one space (plain), \<open>b\<close> (italic) and \<open>" c"\<close> (plain): plain text is
  flushed at markers only, so the space before \<open>c\<close> stays in the last run. For
  every input the concatenation of the runs' text is the input with the marker
  characters \<open>*\<close> and \<open>_\<close> removed.
\<close>

theorem C6_parseInline_runs_and_text:
  "parseInlineMarkdown ''**a** *b* c'' =
     [\<lparr>text' = ''a'', style = boldStyle\<rparr>,
      \<lparr>text' = '' '', style = plainStyle\<rparr>,
      \<lparr>text' = ''b'', style = italicStyle\<rparr>,
      \<lparr>text' = '' c'', style = plainStyle\<rparr>]
   \<and> (\<forall>s. concat (map text' (parseInlineMarkdown s)) = filter (\<lambda>c. \<not> isMarker c) s)"
  using parseInline_example by (simp add: parseInlineMarkdown_def concat_parseInlineLoop)

text \<open>
  C6 as the specification states it fails: the result is not the five-run
  sequence with separate runs for the second space and for \<open>c\<close>.
\<close>

theorem C6_five_runs_counterexample:
  "parseInlineMarkdown ''**a** *b* c'' \<noteq>
     [\<lparr>text' = ''a'', style = boldStyle\<rparr>,
      \<lparr>text' = '' '', style = plainStyle\<rparr>,
      \<lparr>text' = ''b'', style = italicStyle\<rparr>,
      \<lparr>text' = '' '', style = plainStyle\<rparr>,
      \<lparr>text' = ''c'', style = plainStyle\<rparr>]"
  using parseInline_example by simp

section \<open>Properties of \<open>renderJustifiedLine\<close>\<close>


lemma applyStyle_plain:
  "heading st = None \<Longrightarrow>
   applyStyle doc st (docFontSize doc) f = doc\<lparr>fontName := f, fontStyle := styleName st\<rparr>"
  by (simp add: applyStyle_def setFont_def setFontSize_def)











section \<open>The last line of a justified paragraph, and headings\<close>

text \<open>
  C4 at the last line \<open>a b\<close> of a justified paragraph, in the monospaced metrics
  with characters 6 wide: \<open>renderJustifiedLine\<close> advances the cursor past \<open>a\<close> by
  the width of \<open>a\<close> followed by a space, so the space run is drawn at 32 and \<open>b\<close> at
  38, where the left-aligned drawing of the same line puts them at 26 and 32.
\<close>

theorem C4_last_line_advances_by_run_and_space:
  "map op_x (drawn (renderJustifiedLine monoMetrics sampleDoc
      [plainText ''a'', plainText '' '', plainText ''b''] 20 30 100 True)) = [20, 32, 38]
   \<and> map op_x (drawn (drawAlignedLine monoMetrics sampleOptions 20
      (flowColumn sampleOptions 20 0) sampleDoc
      [plainText ''a'', plainText '' '', plainText ''b''] 30)) = [20, 26, 32]"
  by code_simp

text \<open>
  C5 at the heading \<open># T\<close> with base font size 10: the body is drawn in the style
  \<open>normal\<close>, at size 10 when the alignment is not \<open>justify\<close> and at size 22 when it
  is; the style \<open>bold\<close> and the size set for the heading are overwritten by
  \<open>applyStyle\<close> before the \<open>text\<close> call.
\<close>

theorem C5_heading_drawn_normal:
  "map (\<lambda>d. (op_text d, op_fontStyle d, op_fontSize d))
     (drawn (fst (parsePDFMarkdown monoMetrics sampleDoc ''# T'' 20 30 sampleOptions))) =
     [(''T'', Normal, 10)]
   \<and> map (\<lambda>d. (op_text d, op_fontStyle d, op_fontSize d))
     (drawn (fst (parsePDFMarkdown monoMetrics sampleDoc ''# T'' 20 30
        (sampleOptions\<lparr>align := Some Justify\<rparr>)))) =
     [(''T'', Normal, 22)]"
  by code_simp

section \<open>Normalization of the input and the table-of-contents test\<close>

lemma startsWith_append: "startsWith (p @ b) p"
  by (induction p) simp_all

lemma startsWith_Nil [simp]: "startsWith s []"
  by (cases s) simp_all

lemma includesStr_Nil [simp]: "includesStr s []"
  by (cases s) simp_all

lemma includesStr_append: "includesStr (a @ p @ b) p"
proof (induction a)
  case Nil
  show ?case by (cases "p @ b") (use startsWith_append[of p b] in auto)
next
  case (Cons c a)
  then show ?case by simp
qed

lemma startsWith_D: "startsWith s p \<Longrightarrow> \<exists>b. s = p @ b"
  by (induction s p rule: startsWith.induct) auto

lemma includesStr_D: "includesStr s p \<Longrightarrow> \<exists>a b. s = a @ p @ b"
proof (induction s)
  case Nil
  then show ?case by simp
next
  case (Cons c cs)
  from Cons.prems have "startsWith (c # cs) p \<or> includesStr cs p" by simp
  then show ?case
  proof
    assume "startsWith (c # cs) p"
    then obtain b where "c # cs = p @ b" using startsWith_D by blast
    then have "c # cs = [] @ p @ b" by simp
    then show ?thesis by blast
  next
    assume "includesStr cs p"
    with Cons.IH obtain a b where "cs = a @ p @ b" by blast
    then have "c # cs = (c # a) @ p @ b" by simp
    then show ?thesis by blast
  qed
qed

subsection \<open>\<open>replaceRules\<close>\<close>

lemma replaceRules_nodash1: "c \<noteq> CHR ''-'' \<Longrightarrow> replaceRules (c # t) = c # replaceRules t"
  by (cases t rule: replaceRules.cases) auto

lemma replaceRules_nodash2:
  "d \<noteq> CHR ''-'' \<Longrightarrow> replaceRules (a # d # t) = a # replaceRules (d # t)"
  by (cases t) (auto simp: replaceRules_nodash1)

lemma replaceRules_append:
  "w = [] \<or> hd w \<noteq> CHR ''-'' \<Longrightarrow> replaceRules (u @ w) = replaceRules u @ replaceRules w"
proof (induction u rule: replaceRules.induct)
  case (1 a b c rest)
  then show ?case by simp
qed (cases w; auto simp: replaceRules_nodash2)+

lemma startsWith_replaceRules:
  "startsWith (replaceRules t) q \<Longrightarrow> newline \<notin> set q \<Longrightarrow> startsWith t q"
proof (induction t arbitrary: q rule: replaceRules.induct)
  case (1 a b c rest)
  show ?case
  proof (cases q)
    case Nil
    then show ?thesis by simp
  next
    case (Cons x q')
    show ?thesis
    proof (cases "a = CHR ''-'' \<and> b = CHR ''-'' \<and> c = CHR ''-''")
      case True
      with "1.prems" Cons show ?thesis by auto
    next
      case False
      with "1.prems" Cons have "x = a" and "startsWith (replaceRules (b # c # rest)) q'"
        by auto
      moreover have "newline \<notin> set q'" using "1.prems" Cons by simp
      ultimately show ?thesis using "1.IH"(2)[OF False] Cons by simp
    qed
  qed
qed simp_all

lemma includesStr_replaceRules:
  "includesStr (replaceRules t) q \<Longrightarrow> newline \<notin> set q \<Longrightarrow> includesStr t q"
proof (induction t rule: replaceRules.induct)
  case (1 a b c rest)
  show ?case
  proof (cases "a = CHR ''-'' \<and> b = CHR ''-'' \<and> c = CHR ''-''")
    case True
    with "1.prems" have "startsWith (newline # replaceRules rest) q \<or> includesStr (replaceRules rest) q"
      by simp
    then show ?thesis
    proof
      assume "startsWith (newline # replaceRules rest) q"
      with "1.prems"(2) have "q = []" by (cases q) auto
      then show ?thesis by simp
    next
      assume "includesStr (replaceRules rest) q"
      with "1.IH"(1)[OF True] "1.prems"(2) have "includesStr rest q" by simp
      then show ?thesis by simp
    qed
  next
    case False
    with "1.prems" have "startsWith (replaceRules (a # b # c # rest)) q
        \<or> includesStr (replaceRules (b # c # rest)) q" by auto
    then show ?thesis
    proof
      assume "startsWith (replaceRules (a # b # c # rest)) q"
      then have "startsWith (a # b # c # rest) q"
        using "1.prems"(2) by (rule startsWith_replaceRules)
      then show ?thesis by simp
    next
      assume "includesStr (replaceRules (b # c # rest)) q"
      with "1.IH"(2)[OF False] "1.prems"(2) have "includesStr (b # c # rest) q" by simp
      then show ?thesis by simp
    qed
  qed
qed simp_all

subsection \<open>\<open>collapseNewlines\<close>\<close>

lemma startsWith_single: "startsWith s [c] \<longleftrightarrow> (s \<noteq> [] \<and> hd s = c)"
  by (cases s) auto


lemma dropWhile_nl_append:
  "w = [] \<or> hd w \<noteq> newline \<Longrightarrow>
   dropWhile (\<lambda>d. d = newline) (cs @ w) = dropWhile (\<lambda>d. d = newline) cs @ w"
  by (induction cs) (auto simp: dropWhile_eq_self_iff)

lemma collapseNewlines_append:
  "w = [] \<or> hd w \<noteq> newline \<Longrightarrow>
   collapseNewlines (u @ w) = collapseNewlines u @ collapseNewlines w"
proof (induction u rule: collapseNewlines.induct)
  case 1
  then show ?case by simp
next
  case (2 c cs)
  show ?case
  proof (cases "c = newline \<and> startsWith cs [newline]")
    case True
    then have sw: "startsWith (cs @ w) [newline]" by (auto simp: startsWith_single)
    have "collapseNewlines ((c # cs) @ w) =
        newline # collapseNewlines (dropWhile (\<lambda>d. d = newline) (cs @ w))"
      using True sw by simp
    also have "\<dots> = newline # collapseNewlines (dropWhile (\<lambda>d. d = newline) cs @ w)"
      using dropWhile_nl_append[OF "2.prems"] by simp
    also have "\<dots> = newline # (collapseNewlines (dropWhile (\<lambda>d. d = newline) cs) @ collapseNewlines w)"
      using "2.IH"(1)[OF True "2.prems"] by simp
    finally show ?thesis using True by simp
  next
    case False
    then have nsw: "\<not> (c = newline \<and> startsWith (cs @ w) [newline])"
      using "2.prems" by (cases cs) (auto simp: startsWith_single)
    have "collapseNewlines ((c # cs) @ w) = c # collapseNewlines (cs @ w)"
      using nsw by auto
    also have "\<dots> = c # (collapseNewlines cs @ collapseNewlines w)"
      using "2.IH"(2)[OF False "2.prems"] by simp
    finally show ?thesis using False by auto
  qed
qed

lemma startsWith_collapseNewlines:
  "startsWith (collapseNewlines t) q \<Longrightarrow> newline \<notin> set q \<Longrightarrow> startsWith t q"
proof (induction t arbitrary: q rule: collapseNewlines.induct)
  case 1
  then show ?case by simp
next
  case (2 c cs)
  show ?case
  proof (cases q)
    case Nil
    then show ?thesis by simp
  next
    case (Cons x q')
    show ?thesis
    proof (cases "c = newline \<and> startsWith cs [newline]")
      case True
      with "2.prems" Cons show ?thesis by auto
    next
      case False
      with "2.prems" Cons have "x = c" and "startsWith (collapseNewlines cs) q'" by auto
      moreover have "newline \<notin> set q'" using "2.prems" Cons by simp
      ultimately show ?thesis using "2.IH"(2)[OF False] Cons by simp
    qed
  qed
qed

lemma includesStr_dropWhile: "includesStr (dropWhile P s) q \<Longrightarrow> includesStr s q"
  by (induction s) (auto split: if_splits)

lemma includesStr_collapseNewlines:
  "includesStr (collapseNewlines t) q \<Longrightarrow> newline \<notin> set q \<Longrightarrow> includesStr t q"
proof (induction t rule: collapseNewlines.induct)
  case 1
  then show ?case by simp
next
  case (2 c cs)
  show ?case
  proof (cases "c = newline \<and> startsWith cs [newline]")
    case True
    let ?r = "dropWhile (\<lambda>d. d = newline) cs"
    from True "2.prems" have "startsWith (newline # collapseNewlines ?r) q
        \<or> includesStr (collapseNewlines ?r) q" by simp
    then show ?thesis
    proof
      assume "startsWith (newline # collapseNewlines ?r) q"
      with "2.prems"(2) have "q = []" by (cases q) auto
      then show ?thesis by simp
    next
      assume "includesStr (collapseNewlines ?r) q"
      with "2.IH"(1)[OF True] "2.prems"(2) have "includesStr ?r q" by simp
      then have "includesStr cs q" by (rule includesStr_dropWhile)
      then show ?thesis by simp
    qed
  next
    case False
    with "2.prems" have "startsWith (collapseNewlines (c # cs)) q
        \<or> includesStr (collapseNewlines cs) q" by auto
    then show ?thesis
    proof
      assume "startsWith (collapseNewlines (c # cs)) q"
      then have "startsWith (c # cs) q" using "2.prems"(2) by (rule startsWith_collapseNewlines)
      then show ?thesis by simp
    next
      assume "includesStr (collapseNewlines cs) q"
      with "2.IH"(2)[OF False] "2.prems"(2) have "includesStr cs q" by simp
      then show ?thesis by simp
    qed
  qed
qed

lemma includesStr_normalizeText:
  "includesStr (normalizeText s) q \<Longrightarrow> newline \<notin> set q \<Longrightarrow> includesStr s q"
  unfolding normalizeText_def
  by (blast intro: includesStr_replaceRules includesStr_collapseNewlines)

subsection \<open>The routing\<close>

lemma collapseNewlines_keeps: "newline \<notin> set p \<Longrightarrow> collapseNewlines (p @ y) = p @ collapseNewlines y"
  by (induction p) auto

lemma normalizeText_keeps:
  assumes rr: "\<And>v. replaceRules (p @ v) = p @ replaceRules v"
    and nl: "newline \<notin> set p" and ne: "p \<noteq> []" and hd: "hd p \<noteq> CHR ''-''"
    and inc: "includesStr s p"
  shows "\<exists>a b. normalizeText s = a @ p @ b"
proof -
  from inc obtain a b where s: "s = a @ p @ b" using includesStr_D by blast
  have h1: "p @ b = [] \<or> hd (p @ b) \<noteq> CHR ''-''" using ne hd by simp
  have "replaceRules s = replaceRules a @ p @ replaceRules b"
    unfolding s using replaceRules_append[OF h1] rr by simp
  moreover have h2: "p @ replaceRules b = [] \<or> hd (p @ replaceRules b) \<noteq> newline"
    using ne nl by (cases p) auto
  ultimately have "normalizeText s =
      collapseNewlines (replaceRules a) @ p @ collapseNewlines (replaceRules b)"
    unfolding normalizeText_def
    using collapseNewlines_append[OF h2] collapseNewlines_keeps[OF nl] by simp
  then show ?thesis by blast
qed

lemma includesStr_mid: "includesStr (a @ (p1 @ q @ p2) @ b) q"
proof -
  have "a @ (p1 @ q @ p2) @ b = (a @ p1) @ q @ (p2 @ b)" by simp
  then show ?thesis using includesStr_append[of "a @ p1" q "p2 @ b"] by simp
qed

lemma bab_line_kept:
  assumes "includesStr s ''Bab 1 Title - Halaman 5''"
  shows "includesStr (normalizeText s) ''- Halaman'' \<and> includesStr (normalizeText s) ''Bab''"
proof -
  have rr: "\<And>v. replaceRules (''Bab 1 Title - Halaman 5'' @ v) =
      ''Bab 1 Title - Halaman 5'' @ replaceRules v"
    by (simp add: replaceRules_nodash1 replaceRules_nodash2)
  have "\<exists>a b. normalizeText s = a @ ''Bab 1 Title - Halaman 5'' @ b"
    by (rule normalizeText_keeps[OF rr _ _ _ assms]) (simp_all add: newline_def)
  then obtain a b where n: "normalizeText s = a @ ''Bab 1 Title - Halaman 5'' @ b" by blast
  have "includesStr (a @ (''Bab 1 Title '' @ ''- Halaman'' @ '' 5'') @ b) ''- Halaman''"
    by (rule includesStr_mid)
  moreover have "includesStr (a @ ([] @ ''Bab'' @ '' 1 Title - Halaman 5'') @ b) ''Bab''"
    by (rule includesStr_mid)
  ultimately show ?thesis using n by simp
qed

text \<open>
  C8: \<open>parsePDFMarkdown\<close> hands the whole normalized document to
  \<open>formatPDFTableOfContents\<close> exactly when the normalized text contains
  \<open>- Halaman\<close> and also \<open>Bab\<close> or \<open>Kata Pengantar\<close>; otherwise the empty input
  returns at once and every other input goes through the normal flow. Every
  document that contains both \<open>Bab 1 Title - Halaman 5\<close> and
  \<open>Kata Pengantar - Halaman 2\<close> goes to the formatter, and every document that
  contains \<open>Bab 1 Title\<close> and nowhere \<open>- Halaman\<close> goes through the normal flow.
\<close>

theorem C8_toc_routing:
  "parsePDFMarkdown m doc s x y options =
     (if includesStr (normalizeText s) ''- Halaman'' \<and>
         (includesStr (normalizeText s) ''Bab'' \<or> includesStr (normalizeText s) ''Kata Pengantar'')
      then formatPDFTableOfContents m doc (normalizeText s) x y options
      else if s = [] then (doc, y)
      else pageFlow m doc (normalizeText s) x y options)
   \<and> (includesStr s ''Bab 1 Title - Halaman 5'' \<and> includesStr s ''Kata Pengantar - Halaman 2'' \<longrightarrow>
        parsePDFMarkdown m doc s x y options =
          formatPDFTableOfContents m doc (normalizeText s) x y options)
   \<and> (includesStr s ''Bab 1 Title'' \<and> \<not> includesStr s ''- Halaman'' \<longrightarrow>
        parsePDFMarkdown m doc s x y options = pageFlow m doc (normalizeText s) x y options)"
proof (intro conjI impI)
  have e: "\<not> isTocText (normalizeText [])"
    by (simp add: isTocText_def normalizeText_def)
  show "parsePDFMarkdown m doc s x y options =
     (if includesStr (normalizeText s) ''- Halaman'' \<and>
         (includesStr (normalizeText s) ''Bab'' \<or> includesStr (normalizeText s) ''Kata Pengantar'')
      then formatPDFTableOfContents m doc (normalizeText s) x y options
      else if s = [] then (doc, y)
      else pageFlow m doc (normalizeText s) x y options)"
    using e by (auto simp: parsePDFMarkdown_def isTocText_def)
next
  assume a: "includesStr s ''Bab 1 Title - Halaman 5'' \<and> includesStr s ''Kata Pengantar - Halaman 2''"
  then have "isTocText (normalizeText s)" using bab_line_kept[of s] by (simp add: isTocText_def)
  moreover have "s \<noteq> []" using a by auto
  ultimately show "parsePDFMarkdown m doc s x y options =
      formatPDFTableOfContents m doc (normalizeText s) x y options"
    by (simp add: parsePDFMarkdown_def)
next
  assume a: "includesStr s ''Bab 1 Title'' \<and> \<not> includesStr s ''- Halaman''"
  have "\<not> includesStr (normalizeText s) ''- Halaman''"
  proof
    assume "includesStr (normalizeText s) ''- Halaman''"
    then have "includesStr s ''- Halaman''"
      by (rule includesStr_normalizeText) (simp add: newline_def)
    with a show False by simp
  qed
  then have "\<not> isTocText (normalizeText s)" by (simp add: isTocText_def)
  moreover have "s \<noteq> []" using a by auto
  ultimately show "parsePDFMarkdown m doc s x y options = pageFlow m doc (normalizeText s) x y options"
    by (simp add: parsePDFMarkdown_def)
qed

text \<open>
  The theorem of C8 at the two documents of the specification's scenario.
\<close>

theorem C8_toc_routing_witness:
  "includesStr ''Bab 1 Title - Halaman 5\<newline>Kata Pengantar - Halaman 2'' ''Bab 1 Title - Halaman 5''
   \<and> includesStr ''Bab 1 Title - Halaman 5\<newline>Kata Pengantar - Halaman 2'' ''Kata Pengantar - Halaman 2''
   \<and> parsePDFMarkdown monoMetrics sampleDoc
        ''Bab 1 Title - Halaman 5\<newline>Kata Pengantar - Halaman 2'' 20 30 sampleOptions =
      formatPDFTableOfContents monoMetrics sampleDoc
        (normalizeText ''Bab 1 Title - Halaman 5\<newline>Kata Pengantar - Halaman 2'') 20 30 sampleOptions
   \<and> includesStr ''Bab 1 Title'' ''Bab 1 Title''
   \<and> \<not> includesStr ''Bab 1 Title'' ''- Halaman''
   \<and> parsePDFMarkdown monoMetrics sampleDoc ''Bab 1 Title'' 20 30 sampleOptions =
      pageFlow monoMetrics sampleDoc (normalizeText ''Bab 1 Title'') 20 30 sampleOptions"
proof -
  let ?s1 = "''Bab 1 Title - Halaman 5\<newline>Kata Pengantar - Halaman 2''"
  let ?s2 = "''Bab 1 Title''"
  have h1: "includesStr ?s1 ''Bab 1 Title - Halaman 5''" by simp
  have h2: "includesStr ?s1 ''Kata Pengantar - Halaman 2''" by simp
  have h3: "includesStr ?s2 ''Bab 1 Title''" by simp
  have h4: "\<not> includesStr ?s2 ''- Halaman''" by simp
  from C8_toc_routing[of monoMetrics sampleDoc ?s1 20 30 sampleOptions] h1 h2
  have c1: "parsePDFMarkdown monoMetrics sampleDoc ?s1 20 30 sampleOptions =
      formatPDFTableOfContents monoMetrics sampleDoc (normalizeText ?s1) 20 30 sampleOptions"
    by blast
  from C8_toc_routing[of monoMetrics sampleDoc ?s2 20 30 sampleOptions] h3 h4
  have c2: "parsePDFMarkdown monoMetrics sampleDoc ?s2 20 30 sampleOptions =
      pageFlow monoMetrics sampleDoc (normalizeText ?s2) 20 30 sampleOptions"
    by blast
  show ?thesis using h1 h2 h3 h4 c1 c2 by blast
qed

subsection \<open>Runs of newlines\<close>








section \<open>The table of contents stays on its page\<close>




lemma drawsOnly_refl: "drawsOnly P d d"
  by (simp add: drawsOnly_def)

lemma drawsOnly_trans: "drawsOnly P a b \<Longrightarrow> drawsOnly P b c \<Longrightarrow> drawsOnly P a c"
  by (auto simp: drawsOnly_def)

lemma sameCanvas_drawsOnly: "sameCanvas a b \<Longrightarrow> drawsOnly P a b"
  by (simp add: sameCanvas_def drawsOnly_def)

lemma setFont_canvas: "sameCanvas d (setFont f fs d)"
  by (simp add: sameCanvas_def setFont_def)



lemma drawText_drawsOnly:
  "P \<lparr>op_text = s, op_x = x, op_y = y, op_fontName = fontName d, op_fontStyle = fontStyle d,
      op_fontSize = docFontSize d, op_alignRight = r, op_page = pages d\<rparr>
   \<Longrightarrow> drawsOnly P d (drawText s x y r d)"
  by (simp add: drawsOnly_def drawText_def)

lemma drawText_onPage: "pages d = k \<Longrightarrow> drawsOnly (\<lambda>op. op_page op = k) d (drawText s x y r d)"
  by (rule drawText_drawsOnly) simp

lemma drawsOnly_pages: "drawsOnly P a b \<Longrightarrow> pages b = pages a"
  by (simp add: drawsOnly_def)

lemma dots_onPage:
  "pages d = k \<Longrightarrow>
   drawsOnly (\<lambda>op. op_page op = k) d (foldl (\<lambda>d i. drawText s (f i) y False d) d xs)"
proof (induction xs arbitrary: d)
  case Nil
  show ?case by (simp add: drawsOnly_refl)
next
  case (Cons i xs)
  have 1: "drawsOnly (\<lambda>op. op_page op = k) d (drawText s (f i) y False d)"
    using Cons.prems by (rule drawText_onPage)
  then have "pages (drawText s (f i) y False d) = k" using Cons.prems by (simp add: drawsOnly_def)
  from drawsOnly_trans[OF 1 Cons.IH[OF this]] show ?case by simp
qed

lemma formatTocLine_onPage:
  assumes "pages (fst st) = k"
  shows "drawsOnly (\<lambda>op. op_page op = k) (fst st) (fst (formatTocLine m options x st line))"
proof (cases "trim line = []")
  case True
  then show ?thesis by (simp add: formatTocLine_def Let_def drawsOnly_refl)
next
  case False
  let ?P = "\<lambda>op. op_page op = k"
  let ?e = "tocEntry (trim line)"
  let ?y = "snd st"
  let ?doc1 = "setFont (font options) (entryStyle ?e) (fst st)"
  let ?startX = "x + indent ?e"
  let ?doc2 = "(if prefix ?e \<noteq> [] then
                 drawText (title ?e) (?startX + 15) ?y False
                   (drawText (prefix ?e) ?startX ?y False ?doc1)
               else drawText (title ?e) ?startX ?y False ?doc1)"
  have d1: "drawsOnly ?P (fst st) ?doc1"
    by (rule sameCanvas_drawsOnly) (rule setFont_canvas)
  have p1: "pages ?doc1 = k" using drawsOnly_pages[OF d1] assms by simp
  have d2: "drawsOnly ?P ?doc1 ?doc2"
  proof (cases "prefix ?e \<noteq> []")
    case True
    have a: "drawsOnly ?P ?doc1 (drawText (prefix ?e) ?startX ?y False ?doc1)"
      using p1 by (rule drawText_onPage)
    then have "pages (drawText (prefix ?e) ?startX ?y False ?doc1) = k"
      using p1 by (simp add: drawsOnly_def)
    then have "drawsOnly ?P (drawText (prefix ?e) ?startX ?y False ?doc1)
        (drawText (title ?e) (?startX + 15) ?y False (drawText (prefix ?e) ?startX ?y False ?doc1))"
      by (rule drawText_onPage)
    with a True show ?thesis by (auto intro: drawsOnly_trans)
  next
    case False
    then show ?thesis using drawText_onPage[OF p1] by simp
  qed
  have p2: "pages ?doc2 = k" using drawsOnly_pages[OF d2] p1 by simp
  let ?doc3 = "setFont (font options) Normal ?doc2"
  have d3: "drawsOnly ?P ?doc2 ?doc3"
    by (rule sameCanvas_drawsOnly) (rule setFont_canvas)
  have p3: "pages ?doc3 = k" using drawsOnly_pages[OF d3] p2 by simp
  let ?titleWidth = "(if prefix ?e \<noteq> []
                       then getTextWidth m ?doc2 (prefix ?e @ ''  '' @ title ?e)
                       else getTextWidth m ?doc2 (title ?e))"
  let ?dotsStart = "?startX + ?titleWidth + 5"
  let ?dotWidth = "getTextWidth m ?doc2 ''.''"
  let ?n = "\<lfloor>(pageWidth ?doc2 - 20 - 10 - ?dotsStart) / (?dotWidth + 2)\<rfloor>"
  let ?doc4 = "foldl (\<lambda>d i. drawText ''.'' (?dotsStart + real i * (?dotWidth + 2)) ?y False d)
                 ?doc3 [0..<nat ?n]"
  let ?doc5 = "drawText (pageNumber ?e) (pageWidth ?doc4 - 20 - 10) ?y True ?doc4"
  have d4: "drawsOnly ?P ?doc3 ?doc4" using p3 by (rule dots_onPage)
  have p4: "pages ?doc4 = k" using drawsOnly_pages[OF d4] p3 by simp
  have d5: "drawsOnly ?P ?doc4 ?doc5" using p4 by (rule drawText_onPage)
  have all: "drawsOnly ?P (fst st) ?doc5"
    using d1 d2 d3 d4 d5 by (blast intro: drawsOnly_trans)
  have "fst (formatTocLine m options x st line) = ?doc5"
    using False unfolding formatTocLine_def Let_def by simp
  with all show ?thesis by simp
qed

lemma formatToc_onPage:
  "pages (fst st) = k \<Longrightarrow>
   drawsOnly (\<lambda>op. op_page op = k) (fst st) (fst (foldl (formatTocLine m options x) st ls))"
proof (induction ls arbitrary: st)
  case Nil
  show ?case by (simp add: drawsOnly_refl)
next
  case (Cons l ls)
  have 1: "drawsOnly (\<lambda>op. op_page op = k) (fst st) (fst (formatTocLine m options x st l))"
    using Cons.prems by (rule formatTocLine_onPage)
  then have "pages (fst (formatTocLine m options x st l)) = k"
    using Cons.prems by (simp add: drawsOnly_def)
  from drawsOnly_trans[OF 1 Cons.IH[OF this]] show ?case by simp
qed

lemma drawsOnly_newDraws:
  "drawsOnly P doc doc' \<Longrightarrow>
   drawn doc' = drawn doc @ newDraws doc doc' \<and> list_all P (newDraws doc doc')"
  by (auto simp: drawsOnly_def newDraws_def)

text \<open>
  C10: \<open>formatPDFTableOfContents\<close> never adds a page, whatever the document: the
  page count of the surface is unchanged, and every \<open>text\<close> call it issues is on the
  page that was current at entry. So is every document that \<open>parsePDFMarkdown\<close>
  routes to it. The returned cursor can lie below \<open>pageHeight - 20\<close>: one chapter
  entry drawn at \<open>y = 290\<close> on a page of height 297 returns a cursor beyond 277.
\<close>

theorem C10_toc_never_adds_page:
  "pages (fst (formatPDFTableOfContents m doc s x y options)) = pages doc
   \<and> drawn (fst (formatPDFTableOfContents m doc s x y options)) =
       drawn doc @ newDraws doc (fst (formatPDFTableOfContents m doc s x y options))
   \<and> list_all (\<lambda>d. op_page d = pages doc)
       (newDraws doc (fst (formatPDFTableOfContents m doc s x y options)))
   \<and> (isTocText (normalizeText s) \<longrightarrow>
        pages (fst (parsePDFMarkdown m doc s x y options)) = pages doc)
   \<and> snd (formatPDFTableOfContents monoMetrics sampleDoc ''Bab 1 A - Halaman 5'' 20 290
            sampleOptions) > maxY sampleDoc"
proof -
  have d: "\<And>t. drawsOnly (\<lambda>op. op_page op = pages doc) doc
      (fst (formatPDFTableOfContents m doc t x y options))"
    unfolding formatPDFTableOfContents_def
    using formatToc_onPage[of "(doc, y)" "pages doc" m options x] by simp
  have e: "snd (formatPDFTableOfContents monoMetrics sampleDoc ''Bab 1 A - Halaman 5'' 20 290
            sampleOptions) > maxY sampleDoc"
    by code_simp
  have p: "isTocText (normalizeText s) \<Longrightarrow>
        pages (fst (parsePDFMarkdown m doc s x y options)) = pages doc"
    using drawsOnly_pages[OF d[of "normalizeText s"]] by (simp add: parsePDFMarkdown_def)
  show ?thesis
    using drawsOnly_pages[OF d[of s]] drawsOnly_newDraws[OF d[of s]] e p by simp
qed

text \<open>The theorem of C10 at a document of one chapter entry.\<close>

theorem C10_toc_never_adds_page_witness:
  "isTocText (normalizeText ''Bab 1 A - Halaman 5'')
   \<and> pages (fst (parsePDFMarkdown monoMetrics sampleDoc ''Bab 1 A - Halaman 5'' 20 290
        sampleOptions)) = pages sampleDoc"
proof -
  have h: "isTocText (normalizeText ''Bab 1 A - Halaman 5'')" by code_simp
  from C10_toc_never_adds_page[of monoMetrics sampleDoc "''Bab 1 A - Halaman 5''" 20 290 sampleOptions] h
  show ?thesis by blast
qed

section \<open>Page breaks of the normal flow\<close>

subsection \<open>The line breaker leaves the canvas alone\<close>


















subsection \<open>Where the renderers draw\<close>

















subsection \<open>The flow\<close>
















subsection \<open>The scenario\<close>












section \<open>The line breaker\<close>

subsection \<open>Words have no white space\<close>

lemma splitWsLoop_words:
  "list_all (\<lambda>c. \<not> isSpace c) cur \<Longrightarrow>
   list_all (list_all (\<lambda>c. \<not> isSpace c)) (splitWsLoop cur s)"
  by (induction cur s rule: splitWsLoop.induct) auto

lemma splitWs_words: "list_all (list_all (\<lambda>c. \<not> isSpace c)) (splitWs s)"
  by (simp add: splitWs_def splitWsLoop_words)




lemma wordRun_not_space: "isWordRun seg \<Longrightarrow> text' seg \<noteq> spaceText"
  by (auto simp: isWordRun_def spaceText_def isSpace_def)

subsection \<open>The pieces of a split word\<close>

lemma splitWordLoop_parts:
  assumes "list_all (\<lambda>c. \<not> isSpace c) word" and "list_all (goodPart st) result"
    and "list_all (\<lambda>c. \<not> isSpace c) currentPart"
  shows "list_all (goodPart st) (fst (splitWordLoop m doc st maxW word result currentPart))
       \<and> list_all (\<lambda>c. \<not> isSpace c) (snd (splitWordLoop m doc st maxW word result currentPart))"
  using assms
proof (induction m doc st maxW word result currentPart rule: splitWordLoop.induct)
  case (1 m doc st maxW result currentPart)
  then show ?case by simp
next
  case (2 m doc st maxW char rest result currentPart)
  have dash: "\<not> isSpace CHR ''-''" by (simp add: isSpace_def)
  from "2.prems" have c: "\<not> isSpace char" and r: "list_all (\<lambda>c. \<not> isSpace c) rest" by simp_all
  show ?case
  proof (cases "getTextWidth m doc (currentPart @ [char]) > maxW * 0.95")
    case False
    then show ?thesis using "2.IH"(4) "2.prems" c r by simp
  next
    case True
    note w = True
    show ?thesis
    proof (cases "length currentPart \<ge> 2")
      case True
      have "goodPart st \<lparr>text' = currentPart @ ''-'', style = st\<rparr>"
        using "2.prems" dash by (simp add: goodPart_def isWordRun_def)
      then have "list_all (goodPart st) (result @ [\<lparr>text' = currentPart @ ''-'', style = st\<rparr>])"
        using "2.prems" by simp
      then show ?thesis using "2.IH"(1)[OF w True r] c w True by simp
    next
      case False
      note n2 = False
      show ?thesis
      proof (cases "length currentPart > 0")
        case True
        have "goodPart st \<lparr>text' = currentPart, style = st\<rparr>"
          using "2.prems" True by (simp add: goodPart_def isWordRun_def)
        then have "list_all (goodPart st) (result @ [\<lparr>text' = currentPart, style = st\<rparr>])"
          using "2.prems" by simp
        then show ?thesis using "2.IH"(2)[OF w n2 True r] c w n2 True by simp
      next
        case False
        have "goodPart st \<lparr>text' = [char], style = st\<rparr>"
          using c by (simp add: goodPart_def isWordRun_def)
        then have "list_all (goodPart st) (result @ [\<lparr>text' = [char], style = st\<rparr>])"
          using "2.prems" by simp
        then show ?thesis using "2.IH"(3)[OF w n2 False r] c w n2 False by simp
      qed
    qed
  qed
qed

lemma splitWordIfNeeded_parts:
  assumes "word \<noteq> []" and "list_all (\<lambda>c. \<not> isSpace c) word"
  shows "list_all (goodPart st) (snd (splitWordIfNeeded m word st doc maxW))"
proof -
  let ?d1 = "applyStyle doc st (docFontSize doc) (fontName doc)"
  from splitWordLoop_parts[OF assms(2), of st "[]" "[]" m ?d1 maxW]
  have a: "list_all (goodPart st) (fst (splitWordLoop m ?d1 st maxW word [] []))"
    and b: "list_all (\<lambda>c. \<not> isSpace c) (snd (splitWordLoop m ?d1 st maxW word [] []))"
    by simp_all
  have c: "goodPart st \<lparr>text' = word, style = st\<rparr>"
    using assms by (simp add: goodPart_def isWordRun_def)
  have d: "snd (splitWordLoop m ?d1 st maxW word [] []) \<noteq> [] \<Longrightarrow>
      goodPart st \<lparr>text' = snd (splitWordLoop m ?d1 st maxW word [] []), style = st\<rparr>"
    using b by (simp add: goodPart_def isWordRun_def)
  show ?thesis
    using a c d
    by (simp add: splitWordIfNeeded_def Let_def split_beta)
qed

lemma splitWordIfNeeded_doc:
  "heading st = None \<Longrightarrow>
   fst (splitWordIfNeeded m word st doc maxW) = doc\<lparr>fontStyle := styleName st\<rparr>"
  by (simp add: splitWordIfNeeded_def Let_def split_beta applyStyle_plain)

subsection \<open>The greedy pass\<close>

lemma foldl_inv:
  assumes "I st" and "\<And>s a. a \<in> set xs \<Longrightarrow> I s \<Longrightarrow> I (f s a)"
  shows "I (foldl f st xs)"
  using assms by (induction xs arbitrary: st) auto

lemma wordLine_snoc:
  "wordLine line \<Longrightarrow> isWordRun w \<Longrightarrow> text' sp = spaceText \<Longrightarrow> style sp = style w \<Longrightarrow>
   wordLine (line @ [sp, w])"
  by (induction line rule: wordLine.induct) auto

lemma trackedWidth_single:
  "isWordRun w \<Longrightarrow> trackedWidth m f sz sw [w] = segWidth m f sz w"
  by (simp add: trackedWidth_def wordRun_not_space)

lemma trackedWidth_snoc:
  "isWordRun w \<Longrightarrow> text' sp = spaceText \<Longrightarrow>
   trackedWidth m f sz sw (line @ [sp, w]) = trackedWidth m f sz sw line + sw + segWidth m f sz w"
  by (simp add: trackedWidth_def wordRun_not_space)

lemma goodLine_ne: "goodLine m f sz sw aw line \<Longrightarrow> line \<noteq> []"
  by (auto simp: goodLine_def)

lemma commitLine_inv:
  assumes "breakInv m f sz sw aw st"
  shows "breakInv m f sz sw aw (commitLine st)"
    and "currentLineSegments (commitLine st) = []"
    and "currentLineWidth (commitLine st) = 0"
  using assms by (auto simp: breakInv_def commitLine_def)

lemma startLine_inv:
  assumes "breakInv m f sz sw aw st" and "currentLineSegments st = []"
    and "isWordRun w" and "plainRun w" and "c = segWidth m f sz w"
  shows "breakInv m f sz sw aw ((pushSegment w st)\<lparr>currentLineWidth := c\<rparr>)"
  using assms
  by (simp add: breakInv_def pushSegment_def goodLine_def trackedWidth_single)

lemma setDoc_inv:
  "breakInv m f sz sw aw st \<Longrightarrow> docFontSize d = sz \<Longrightarrow> breakInv m f sz sw aw (st\<lparr>bs_doc := d\<rparr>)"
  by (simp add: breakInv_def)

lemma placeParts_inv:
  assumes "breakInv m f sz sw aw st" and "list_all (goodPart sty) parts"
    and "heading sty = None" and "fontName (bs_doc st) = f"
    and "fontStyle (bs_doc st) = styleName sty"
    and "k = 0 \<longrightarrow> currentLineSegments st = []"
  shows "breakInv m f sz sw aw (foldl (placePart m) st (zip parts [k..<k + length parts]))"
  using assms
proof (induction parts arbitrary: st k)
  case Nil
  then show ?case by simp
next
  case (Cons p parts)
  let ?st1 = "if k > 0 then commitLine st else st"
  let ?st2 = "(pushSegment p ?st1)\<lparr>currentLineWidth := getTextWidth m (bs_doc ?st1) (text' p)\<rparr>"
  have z: "zip (p # parts) [k..<k + length (p # parts)] =
      (p, k) # zip parts [Suc k..<Suc k + length parts]"
    by (simp add: upt_conv_Cons del: upt_Suc)
  have pp: "placePart m st (p, k) = ?st2" by (simp add: placePart_def Let_def)
  from Cons.prems(2) have gpp: "goodPart sty p" and rest: "list_all (goodPart sty) parts"
    by simp_all
  from gpp have gp: "style p = sty" "isWordRun p" by (simp_all add: goodPart_def)
  have inv1: "breakInv m f sz sw aw ?st1" and e1: "currentLineSegments ?st1 = []"
    and d1: "bs_doc ?st1 = bs_doc st"
    using Cons.prems(1,6) commitLine_inv[OF Cons.prems(1)] by (auto simp: commitLine_def)
  have sz: "docFontSize (bs_doc st) = sz" using Cons.prems(1) by (simp add: breakInv_def)
  have w: "getTextWidth m (bs_doc ?st1) (text' p) = segWidth m f sz p"
    using d1 Cons.prems(4,5) gp sz by (simp add: getTextWidth_def segWidth_def)
  have pl: "plainRun p" using gp Cons.prems(3) by (simp add: plainRun_def)
  have inv2: "breakInv m f sz sw aw ?st2"
    using startLine_inv[OF inv1 e1 gp(2) pl w] w by simp
  have d2: "bs_doc ?st2 = bs_doc st" using d1 by (simp add: pushSegment_def)
  have "breakInv m f sz sw aw (foldl (placePart m) ?st2 (zip parts [Suc k..<Suc k + length parts]))"
    using Cons.IH[OF inv2 rest Cons.prems(3), of "Suc k"] d2 Cons.prems(4,5) by simp
  then show ?case unfolding z using pp by simp
qed

lemma placeWord_inv:
  assumes inv: "breakInv m f sz sw aw st0" and pl: "plainRun segment"
    and ws: "list_all (\<lambda>c. \<not> isSpace c) word"
  shows "breakInv m f sz sw aw (placeWord m aw sw f segment st0 word)"
proof (cases "word = []")
  case True
  then show ?thesis using inv by (simp add: placeWord_def)
next
  case False
  note ne = False
  let ?sty = "style segment"
  let ?w = "\<lparr>text' = word, style = ?sty\<rparr>"
  let ?sp = "\<lparr>text' = spaceText, style = ?sty\<rparr>"
  have hd: "heading ?sty = None" using pl by (simp add: plainRun_def)
  have sz: "docFontSize (bs_doc st0) = sz" using inv by (simp add: breakInv_def)
  let ?doc1 = "applyStyle (bs_doc st0) ?sty (docFontSize (bs_doc st0)) f"
  have doc1: "?doc1 = (bs_doc st0)\<lparr>fontName := f, fontStyle := styleName ?sty\<rparr>"
    using hd by (rule applyStyle_plain)
  let ?st = "st0\<lparr>bs_doc := ?doc1\<rparr>"
  have invst: "breakInv m f sz sw aw ?st"
    using setDoc_inv[OF inv, of ?doc1] sz doc1 by simp
  let ?ww = "getTextWidth m ?doc1 word"
  have ww: "?ww = segWidth m f sz ?w"
    unfolding doc1 using sz by (simp add: getTextWidth_def segWidth_def)
  have wr: "isWordRun ?w" using ne ws by (simp add: isWordRun_def)
  have wp: "plainRun ?w" and spp: "plainRun ?sp" using hd by (simp_all add: plainRun_def)
  let ?total = "currentLineWidth ?st
      + (if length (currentLineSegments ?st) > 0 then sw else 0) + ?ww"
  show ?thesis
  proof (cases "?total \<le> aw")
    case True
    note fits = True
    show ?thesis
    proof (cases "currentLineSegments st0 = []")
      case True
      have "placeWord m aw sw f segment st0 word =
          (pushSegment ?w ?st)\<lparr>currentLineWidth := currentLineWidth ?st + ?ww\<rparr>"
        using ne fits True by (simp add: placeWord_def Let_def)
      moreover have "currentLineWidth ?st = 0" using inv True by (simp add: breakInv_def)
      moreover have "currentLineSegments ?st = []" using True by simp
      ultimately show ?thesis
        using startLine_inv[OF invst _ wr wp, of "?ww"] ww by simp
    next
      case False
      let ?cls = "currentLineSegments st0"
      have pw: "placeWord m aw sw f segment st0 word =
          ?st\<lparr>currentLineSegments := ?cls @ [?sp, ?w],
               currentLineWidth := currentLineWidth st0 + sw + ?ww\<rparr>"
        using ne fits False by (simp add: placeWord_def Let_def pushSegment_def)
      from inv False have g: "goodLine m f sz sw aw ?cls"
        and c: "currentLineWidth st0 = trackedWidth m f sz sw ?cls"
        by (simp_all add: breakInv_def)
      have tr: "trackedWidth m f sz sw (?cls @ [?sp, ?w]) = currentLineWidth st0 + sw + ?ww"
        using trackedWidth_snoc[OF wr, of ?sp m f sz sw ?cls] c ww by simp
      have le: "trackedWidth m f sz sw (?cls @ [?sp, ?w]) \<le> aw"
        using fits False tr by simp
      have "goodLine m f sz sw aw (?cls @ [?sp, ?w])"
        using g wordLine_snoc[of ?cls ?w ?sp] wr wp spp le by (simp add: goodLine_def)
      then show ?thesis
        using invst tr unfolding pw by (simp add: breakInv_def)
    qed
  next
    case False
    note nofit = False
    show ?thesis
    proof (cases "?ww \<le> aw")
      case True
      have "placeWord m aw sw f segment st0 word =
          (pushSegment ?w (commitLine ?st))\<lparr>currentLineWidth := ?ww\<rparr>"
        using ne nofit True by (simp add: placeWord_def Let_def)
      then show ?thesis
        using startLine_inv[OF commitLine_inv(1,2)[OF invst] wr wp ww] by simp
    next
      case False
      let ?st1 = "if length (currentLineSegments ?st) > 0 then commitLine ?st else ?st"
      have inv1: "breakInv m f sz sw aw ?st1" and e1: "currentLineSegments ?st1 = []"
        and d1: "bs_doc ?st1 = ?doc1"
        using invst commitLine_inv[OF invst] by (auto simp: commitLine_def)
      let ?sp = "splitWordIfNeeded m word ?sty ?doc1 aw"
      have pw: "placeWord m aw sw f segment st0 word =
          foldl (placePart m) (?st1\<lparr>bs_doc := fst ?sp\<rparr>) (zip (snd ?sp) [0..<length (snd ?sp)])"
        using ne nofit False d1 by (simp add: placeWord_def Let_def split_beta)
      have dsp: "fst ?sp = ?doc1\<lparr>fontStyle := styleName ?sty\<rparr>"
        using hd by (rule splitWordIfNeeded_doc)
      have parts: "list_all (goodPart ?sty) (snd ?sp)"
        using ne ws by (rule splitWordIfNeeded_parts)
      have inv2: "breakInv m f sz sw aw (?st1\<lparr>bs_doc := fst ?sp\<rparr>)"
        using setDoc_inv[OF inv1, of "fst ?sp"] dsp doc1 sz by simp
      have "breakInv m f sz sw aw
          (foldl (placePart m) (?st1\<lparr>bs_doc := fst ?sp\<rparr>) (zip (snd ?sp) [0..<0 + length (snd ?sp)]))"
        using e1 dsp doc1
        by (intro placeParts_inv[OF inv2 parts hd]) auto
      then show ?thesis unfolding pw by simp
    qed
  qed
qed

lemma placeSegment_inv:
  assumes "breakInv m f sz sw aw st" and "plainRun segment"
  shows "breakInv m f sz sw aw (placeSegment m aw sw f st segment)"
  unfolding placeSegment_def
proof (rule foldl_inv[where I = "breakInv m f sz sw aw"])
  show "breakInv m f sz sw aw st" by fact
next
  fix s a
  assume "a \<in> set (splitWs (text' segment))" and i: "breakInv m f sz sw aw s"
  then have "list_all (\<lambda>c. \<not> isSpace c) a"
    using splitWs_words[of "text' segment"] by (simp add: list_all_iff)
  then show "breakInv m f sz sw aw (placeWord m aw sw f segment s a)"
    using placeWord_inv[OF i assms(2)] by simp
qed

lemma placeSegments_inv:
  assumes "breakInv m f sz sw aw st" and "list_all plainRun segments"
  shows "breakInv m f sz sw aw (foldl (placeSegment m aw sw f) st segments)"
proof (rule foldl_inv[where I = "breakInv m f sz sw aw"])
  show "breakInv m f sz sw aw st" by fact
next
  fix s a
  assume "a \<in> set segments" and i: "breakInv m f sz sw aw s"
  then have "plainRun a" using assms(2) by (simp add: list_all_iff)
  then show "breakInv m f sz sw aw (placeSegment m aw sw f s a)"
    using placeSegment_inv[OF i] by simp
qed

lemma greedyLines_good:
  assumes "list_all plainRun segments"
  shows "list_all (goodLine m f (docFontSize doc) (getTextWidth m doc spaceText)
            (maxW - bi * docFontSize doc)) (snd (greedyLines m doc segments maxW bi f))"
    and "docFontSize (fst (greedyLines m doc segments maxW bi f)) = docFontSize doc"
proof -
  let ?sz = "docFontSize doc" and ?sw = "getTextWidth m doc spaceText"
  let ?aw = "maxW - bi * docFontSize doc"
  let ?st0 = "\<lparr>bs_doc = doc, bs_lines = [], currentLineSegments = [], currentLineWidth = 0\<rparr>"
  let ?st1 = "foldl (placeSegment m ?aw ?sw f) ?st0 segments"
  let ?st2 = "if length (currentLineSegments ?st1) > 0 then commitLine ?st1 else ?st1"
  have "breakInv m f ?sz ?sw ?aw ?st0" by (simp add: breakInv_def)
  then have i1: "breakInv m f ?sz ?sw ?aw ?st1" using assms by (rule placeSegments_inv)
  then have i2: "breakInv m f ?sz ?sw ?aw ?st2"
    using commitLine_inv(1)[OF i1] by simp
  have g: "list_all (goodLine m f ?sz ?sw ?aw) (bs_lines ?st2)"
    using i2 unfolding breakInv_def by blast
  have ne: "filter (\<lambda>line. length line > 0) (bs_lines ?st2 @ [[]]) = bs_lines ?st2"
  proof -
    have "\<And>l. l \<in> set (bs_lines ?st2) \<Longrightarrow> l \<noteq> []"
    proof -
      fix l assume "l \<in> set (bs_lines ?st2)"
      with g have "goodLine m f ?sz ?sw ?aw l" unfolding list_all_iff by blast
      then show "l \<noteq> []" by (rule goodLine_ne)
    qed
    then have "filter (\<lambda>line. length line > 0) (bs_lines ?st2) = bs_lines ?st2"
      unfolding filter_id_conv by blast
    then show ?thesis by simp
  qed
  have r: "snd (greedyLines m doc segments maxW bi f) = bs_lines ?st2"
    using ne by (simp add: greedyLines_def Let_def)
  show "list_all (goodLine m f ?sz ?sw ?aw) (snd (greedyLines m doc segments maxW bi f))"
    using g r by simp
  show "docFontSize (fst (greedyLines m doc segments maxW bi f)) = docFontSize doc"
    using i2 by (simp add: greedyLines_def Let_def breakInv_def)
qed

text \<open>
  A line of the greedy pass with more than one run ends with a word and has a
  space run: it meets the conditions under which the justified branch of
  \<open>renderJustifiedLine\<close> spreads the slack.
\<close>

lemma wordLine_last: "wordLine line \<Longrightarrow> isWordRun (last line)"
  by (induction line rule: wordLine.induct) auto

lemma wordLine_spaces: "wordLine line \<Longrightarrow> length line > 1 \<Longrightarrow> 0 < numberOfSpaces line"
  by (cases line rule: wordLine.cases) (auto simp: numberOfSpaces_def)

lemma greedyLines_justifiable:
  assumes "list_all plainRun segments"
    and "line \<in> set (snd (greedyLines m doc segments maxW bi f))"
    and "length line > 1"
  shows "list_all plainRun line \<and> text' (last line) \<noteq> spaceText \<and> 0 < numberOfSpaces line"
proof -
  have "list_all (goodLine m f (docFontSize doc) (getTextWidth m doc spaceText)
      (maxW - bi * docFontSize doc)) (snd (greedyLines m doc segments maxW bi f))"
    using assms(1) by (rule greedyLines_good(1))
  with assms(2) have "wordLine line" and "list_all plainRun line"
    by (simp_all add: list_all_iff goodLine_def)
  then show ?thesis
    using wordLine_last[of line] wordLine_spaces[of line] assms(3) wordRun_not_space by blast
qed

subsection \<open>Measuring a line\<close>

lemma lineWidth_snoc: "lineWidth m f sz (line @ [s]) = lineWidth m f sz line + segWidth m f sz s"
  by (simp add: lineWidth_def)

lemma lineWidthStep_plain:
  assumes "plainRun s" and "docFontSize d = sz"
  shows "lineWidthStep m f (d, t) s =
           (d\<lparr>fontName := f, fontStyle := styleName (style s)\<rparr>, t + segWidth m f sz s)"
proof -
  have h: "heading (style s) = None" using assms(1) by (simp add: plainRun_def)
  have a: "applyStyle d (style s) (docFontSize d) f =
      d\<lparr>fontName := f, fontStyle := styleName (style s)\<rparr>"
    using h by (rule applyStyle_plain)
  show ?thesis
    unfolding lineWidthStep_def Let_def fst_conv snd_conv a
    by (simp add: getTextWidth_def segWidth_def assms(2))
qed

lemma lineWidth_fold:
  assumes "list_all plainRun line" and "docFontSize d = sz"
  shows "snd (foldl (lineWidthStep m f) (d, t) line) = t + lineWidth m f sz line
       \<and> docFontSize (fst (foldl (lineWidthStep m f) (d, t) line)) = sz
       \<and> fontName (fst (foldl (lineWidthStep m f) (d, t) line)) =
           (if line = [] then fontName d else f)"
  using assms
proof (induction line arbitrary: d t)
  case Nil
  then show ?case by (simp add: lineWidth_def)
next
  case (Cons s line)
  then have p: "plainRun s" and ps: "list_all plainRun line" by simp_all
  let ?d1 = "d\<lparr>fontName := f, fontStyle := styleName (style s)\<rparr>"
  have st: "lineWidthStep m f (d, t) s = (?d1, t + segWidth m f sz s)"
    using p Cons.prems(2) by (rule lineWidthStep_plain)
  have "docFontSize ?d1 = sz" using Cons.prems(2) by simp
  from Cons.IH[OF ps this, of "t + segWidth m f sz s"] st
  show ?case by (simp add: lineWidth_def)
qed

subsection \<open>The pieces keep the style\<close>

lemma splitWordLoop_styles:
  "list_all (\<lambda>p. style p = st) result \<Longrightarrow>
   list_all (\<lambda>p. style p = st) (fst (splitWordLoop m doc st maxW word result currentPart))"
  by (induction m doc st maxW word result currentPart rule: splitWordLoop.induct) auto

lemma splitWordIfNeeded_styles:
  "list_all (\<lambda>p. style p = st) (snd (splitWordIfNeeded m word st doc maxW))"
  using splitWordLoop_styles[of st "[]" m "applyStyle doc st (docFontSize doc) (fontName doc)"
      maxW word "[]"]
  by (simp add: splitWordIfNeeded_def Let_def split_beta)

subsection \<open>The repair pass\<close>

lemma keepPart_ok:
  assumes "keptOk m f sz aw st" and "style part = sty"
    and "fontName d = f" and "fontStyle d = styleName sty" and "docFontSize d = sz"
  shows "keptOk m f sz aw (keepPart m aw d st part)"
proof -
  have "getTextWidth m d (text' part) = segWidth m f sz part"
    using assms(2-5) by (simp add: getTextWidth_def segWidth_def)
  then show ?thesis
    using assms(1) by (simp add: keptOk_def keepPart_def lineWidth_snoc)
qed

lemma keepParts_ok:
  assumes "keptOk m f sz aw st" and "list_all (\<lambda>p. style p = sty) parts"
    and "fontName d = f" and "fontStyle d = styleName sty" and "docFontSize d = sz"
  shows "keptOk m f sz aw (foldl (keepPart m aw d) st parts)"
proof (rule foldl_inv[where I = "keptOk m f sz aw"])
  show "keptOk m f sz aw st" by fact
next
  fix s a
  assume "a \<in> set parts" and k: "keptOk m f sz aw s"
  then have "style a = sty" using assms(2) by (simp add: list_all_iff)
  with k show "keptOk m f sz aw (keepPart m aw d s a)"
    using assms(3-5) by (rule keepPart_ok)
qed

lemma repairStep_ok:
  assumes ok: "repairOk m f sz aw st" and pl: "plainRun segment"
    and sp: "\<forall>fs. m f fs sz spaceText \<le> sw"
  shows "repairOk m f sz aw (repairStep m aw sw st segment)"
proof (cases st)
  case (fields doc newLine currentWidth)
  from ok fields have sz: "docFontSize doc = sz" and fn: "fontName doc = f"
    and k: "keptOk m f sz aw (newLine, currentWidth)"
    by (simp_all add: repairOk_def)
  have hd: "heading (style segment) = None" using pl by (simp add: plainRun_def)
  show ?thesis
  proof (cases "text' segment = spaceText")
    case True
    have "segWidth m f sz segment \<le> sw" using sp True by (simp add: segWidth_def)
    then show ?thesis
      using True k sz fn
      by (simp add: fields repairStep_def repairOk_def keptOk_def lineWidth_snoc)
  next
    case False
    let ?sp = "splitWordIfNeeded m (text' segment) (style segment) doc (aw - currentWidth)"
    have d: "fst ?sp = doc\<lparr>fontStyle := styleName (style segment)\<rparr>"
      using hd by (rule splitWordIfNeeded_doc)
    have "keptOk m f sz aw (foldl (keepPart m aw (fst ?sp)) (newLine, currentWidth) (snd ?sp))"
      using k splitWordIfNeeded_styles
      by (rule keepParts_ok) (simp_all add: d fn sz)
    then show ?thesis
      using False sz fn d
      by (simp add: fields repairStep_def repairOk_def split_beta)
  qed
qed

lemma repairLine_ok:
  assumes pl: "list_all plainRun line" and sz: "docFontSize d = sz" and aw: "0 \<le> aw"
    and sp: "\<forall>fs. m f fs sz spaceText \<le> sw"
  shows "lineWidth m f sz (snd (repairLine m aw sw f d line)) \<le> aw"
    and "docFontSize (fst (repairLine m aw sw f d line)) = sz"
proof -
  let ?r = "foldl (lineWidthStep m f) (d, 0) line"
  from lineWidth_fold[OF pl sz, of m f 0]
  have w: "snd ?r = lineWidth m f sz line" and s1: "docFontSize (fst ?r) = sz"
    and f1: "fontName (fst ?r) = (if line = [] then fontName d else f)" by simp_all
  let ?q = "foldl (repairStep m aw sw) (fst ?r, [], 0) line"
  have q: "lineWidth m f sz line > aw \<Longrightarrow> repairOk m f sz aw ?q"
  proof -
    assume gt: "lineWidth m f sz line > aw"
    with aw have "line \<noteq> []" by (auto simp: lineWidth_def)
    with f1 have "fontName (fst ?r) = f" by simp
    then have 0: "repairOk m f sz aw (fst ?r, [], 0)"
      using s1 aw by (simp add: repairOk_def keptOk_def lineWidth_def)
    show ?thesis
    proof (rule foldl_inv[where I = "repairOk m f sz aw"])
      show "repairOk m f sz aw (fst ?r, [], 0)" by (rule 0)
    next
      fix s a
      assume "a \<in> set line" and ok: "repairOk m f sz aw s"
      then have "plainRun a" using pl by (simp add: list_all_iff)
      with ok show "repairOk m f sz aw (repairStep m aw sw s a)" using sp by (rule repairStep_ok)
    qed
  qed
  have e: "repairLine m aw sw f d line =
      (if lineWidth m f sz line > aw then (fst ?q, fst (snd ?q)) else (fst ?r, line))"
    using w by (simp add: repairLine_def split_beta)
  show "lineWidth m f sz (snd (repairLine m aw sw f d line)) \<le> aw"
    using q unfolding e by (auto simp: repairOk_def keptOk_def)
  show "docFontSize (fst (repairLine m aw sw f d line)) = sz"
    using q s1 unfolding e by (auto simp: repairOk_def)
qed


lemma repairLines_ok:
  assumes "list_all (list_all plainRun) ls" and "docFontSize d = sz" and "0 \<le> aw"
    and "\<forall>fs. m f fs sz spaceText \<le> sw"
  shows "list_all (\<lambda>line. lineWidth m f sz line \<le> aw) (snd (repairLines m aw sw f d ls))"
  using assms
proof (induction ls arbitrary: d)
  case Nil
  then show ?case by simp
next
  case (Cons l ls)
  then have pl: "list_all plainRun l" and pls: "list_all (list_all plainRun) ls" by simp_all
  from repairLine_ok[where m=m and f=f and sz=sz and sw=sw and aw=aw, OF pl Cons.prems(2,3,4)]
  have a: "lineWidth m f sz (snd (repairLine m aw sw f d l)) \<le> aw"
    and b: "docFontSize (fst (repairLine m aw sw f d l)) = sz" by simp_all
  from Cons.IH[OF pls b Cons.prems(3,4)] a
  show ?case by (simp add: split_beta)
qed

lemma goodLines_plain:
  "list_all (goodLine m f sz sw aw) ls \<Longrightarrow> list_all (list_all plainRun) ls"
  by (simp add: list_all_iff goodLine_def)

text \<open>
  C1 (as the code has it): when the runs have no heading level, the available
  width \<open>maxWidth - baseIndentation * fontSize\<close> is not negative, and a space is
  in no font style wider than the \<open>spaceWidth\<close> measured at entry, every line that
  \<open>splitTextToLines\<close> returns has a total measured width of at most the available
  width. No exception is needed for a single character that is too wide: the
  repair pass drops it and returns an empty line.
\<close>

theorem C1_width_bound:
  assumes "list_all plainRun segments"
    and "0 \<le> maxW - bi * docFontSize doc"
    and "\<forall>fs. m f fs (docFontSize doc) spaceText \<le> getTextWidth m doc spaceText"
  shows "list_all (\<lambda>line. lineWidth m f (docFontSize doc) line \<le> maxW - bi * docFontSize doc)
           (snd (splitTextToLines m doc segments maxW bi f))"
proof -
  let ?g = "greedyLines m doc segments maxW bi f"
  have pl: "list_all (list_all plainRun) (snd ?g)"
    using greedyLines_good(1)[OF assms(1)] by (rule goodLines_plain)
  have sz: "docFontSize (fst ?g) = docFontSize doc"
    using assms(1) by (rule greedyLines_good(2))
  from repairLines_ok[where m=m and f=f and sz="docFontSize doc" and sw="getTextWidth m doc spaceText" and aw="maxW - bi * docFontSize doc", OF pl sz assms(2,3)]
  show ?thesis by (simp add: splitTextToLines_def split_beta)
qed

subsection \<open>Breaking a line again\<close>















text \<open>The theorem of C1 at a paragraph with a long word, in a column of width 50.\<close>

theorem C1_width_bound_witness:
  "list_all plainRun (parseInlineMarkdown ''hello **big** world abcdefghijklmnopqrstuvwxyz end'')
   \<and> 0 \<le> 50 - 0 * docFontSize sampleDoc
   \<and> (\<forall>fs. monoMetrics ''helvetica'' fs (docFontSize sampleDoc) spaceText
          \<le> getTextWidth monoMetrics sampleDoc spaceText)
   \<and> list_all (\<lambda>line. lineWidth monoMetrics ''helvetica'' (docFontSize sampleDoc) line
                   \<le> 50 - 0 * docFontSize sampleDoc)
        (snd (splitTextToLines monoMetrics sampleDoc
           (parseInlineMarkdown ''hello **big** world abcdefghijklmnopqrstuvwxyz end'')
           50 0 ''helvetica''))"
proof -
  let ?segs = "parseInlineMarkdown ''hello **big** world abcdefghijklmnopqrstuvwxyz end''"
  have h1: "list_all plainRun ?segs" by code_simp
  have h2: "0 \<le> 50 - 0 * docFontSize sampleDoc" by simp
  have h3: "\<forall>fs. monoMetrics ''helvetica'' fs (docFontSize sampleDoc) spaceText
          \<le> getTextWidth monoMetrics sampleDoc spaceText"
    by (simp add: getTextWidth_def monoMetrics_def sampleDoc_def)
  from C1_width_bound[where m=monoMetrics and f="''helvetica''" and doc=sampleDoc
      and maxW=50 and bi=0, OF h1 h2 h3]
  show ?thesis using h1 h2 h3 by blast
qed

text \<open>
  C1 as the specification states it fails. With a negative available width
  (\<open>maxWidth = 5\<close>, indentation \<open>1 * 10\<close>) the one line returned is empty: it is
  wider than \<open>-5\<close> and no single character. And when a bold space is wider than
  the space measured at entry, the line \<open>a b\<close> of three bold runs is returned with
  the measured width 36 in a column of width 30.
\<close>

theorem C1_width_bound_counterexample:
  "snd (splitTextToLines monoMetrics sampleDoc [plainText ''a''] 5 1 ''helvetica'') = [[]]
   \<and> lineWidth monoMetrics ''helvetica'' (docFontSize sampleDoc) [] > 5 - 1 * docFontSize sampleDoc
   \<and> snd (splitTextToLines boldWideMetrics sampleDoc [boldText ''a b''] 30 0 ''helvetica'') =
       [[boldText ''a'', boldText '' '', boldText ''b'']]
   \<and> lineWidth boldWideMetrics ''helvetica'' (docFontSize sampleDoc)
        [boldText ''a'', boldText '' '', boldText ''b''] > 30 - 0 * docFontSize sampleDoc"
  by code_simp

end
